theory Spec2Isabelle
  imports Complex_Main
begin

section \<open>JavaScript values\<close>

text \<open>
  The task files are parsed JSON, and the compatibility and query code reads them
  with dynamic property access, so a task is not a record here but a JavaScript value.
  An object is the list of its own properties in enumeration order. Numbers are the
  integers (task ids are integers in the task files; \<open>NaN\<close> and fractions do not
  occur in an id). Strings are lists of characters; characters beyond ASCII are not
  distinguished by the string operations below.
\<close>

datatype jsval =
    JUndefined
  | JNull
  | JBool bool
  | JNum int
  | JStr string
  | JArr "jsval list"
  | JObj "(string \<times> jsval) list"

text \<open>Every exception the modelled code can raise is a \<open>TypeError\<close>: a property read
  on \<open>null\<close> or \<open>undefined\<close>, or a call of something that is not a function.\<close>

datatype js_error = TypeError

type_synonym 'a result = "js_error + 'a"

definition rbind :: "'a result \<Rightarrow> ('a \<Rightarrow> 'b result) \<Rightarrow> 'b result" where
  "rbind m f = (case m of Inl e \<Rightarrow> Inl e | Inr v \<Rightarrow> f v)"

text \<open>\<open>Array.prototype.map\<close> with a callback that may throw: the first exception ends the
  loop.\<close>

fun map_result :: "('a \<Rightarrow> 'b result) \<Rightarrow> 'a list \<Rightarrow> 'b list result" where
  "map_result f [] = Inr []"
| "map_result f (x # xs) =
     rbind (f x) (\<lambda>y. rbind (map_result f xs) (\<lambda>ys. Inr (y # ys)))"

text \<open>\<open>Array.prototype.filter\<close> with a callback that may throw.\<close>

fun filter_result :: "('a \<Rightarrow> bool result) \<Rightarrow> 'a list \<Rightarrow> 'a list result" where
  "filter_result p [] = Inr []"
| "filter_result p (x # xs) =
     rbind (p x) (\<lambda>b. rbind (filter_result p xs) (\<lambda>ys. Inr (if b then x # ys else ys)))"

text \<open>Truthiness (\<open>ToBoolean\<close>).\<close>

fun truthy :: "jsval \<Rightarrow> bool" where
  "truthy JUndefined = False"
| "truthy JNull = False"
| "truthy (JBool b) = b"
| "truthy (JNum n) = (n \<noteq> 0)"
| "truthy (JStr s) = (s \<noteq> [])"
| "truthy (JArr xs) = True"
| "truthy (JObj kvs) = True"

text \<open>\<open>a || b\<close> on values.\<close>

definition js_or :: "jsval \<Rightarrow> jsval \<Rightarrow> jsval" where
  "js_or a b = (if truthy a then a else b)"

text \<open>Decimal notation of a number, as \<open>ToString\<close> prints an integer and as the index
  keys of an array are written.\<close>

definition digit_char :: "nat \<Rightarrow> char" where
  "digit_char d = char_of (48 + d)"

fun show_nat :: "nat \<Rightarrow> string" where
  "show_nat n = (if n < 10 then [digit_char n] else show_nat (n div 10) @ [digit_char (n mod 10)])"

declare show_nat.simps [simp del]

definition show_int :: "int \<Rightarrow> string" where
  "show_int i = (if i < 0 then CHR ''-'' # show_nat (nat (- i)) else show_nat (nat i))"

definition index_keys :: "nat \<Rightarrow> string list" where
  "index_keys n = map show_nat [0..<n]"

text \<open>The own enumerable properties of a value, which is what the spread \<open>{...v}\<close>
  copies: the properties of an object, the indices of an array or of a string, and
  nothing for the other primitives, \<open>null\<close> and \<open>undefined\<close> included.\<close>

fun own_props :: "jsval \<Rightarrow> (string \<times> jsval) list" where
  "own_props (JObj kvs) = kvs"
| "own_props (JArr xs) = zip (index_keys (length xs)) xs"
| "own_props (JStr s) = zip (index_keys (length s)) (map (\<lambda>c. JStr [c]) s)"
| "own_props v = []"

text \<open>
  The property read \<open>v.k\<close> and \<open>v[k]\<close>. It throws on \<open>null\<close> and \<open>undefined\<close>. A
  property that is absent reads as \<open>undefined\<close>. Inherited members (the methods of the
  prototypes) are not values of the model: the property names read below
  (\<open>id\<close>, \<open>title\<close>, \<open>status\<close>, \<open>subtasks\<close>, \<open>customFields\<close>, \<open>parentTaskId\<close>, and the
  custom field names of the statements) name none of them.
\<close>

fun get_prop :: "jsval \<Rightarrow> string \<Rightarrow> jsval result" where
  "get_prop JUndefined k = Inl TypeError"
| "get_prop JNull k = Inl TypeError"
| "get_prop (JObj kvs) k = Inr (case map_of kvs k of None \<Rightarrow> JUndefined | Some v \<Rightarrow> v)"
| "get_prop (JArr xs) k =
     Inr (if k = ''length'' then JNum (int (length xs))
          else case map_of (own_props (JArr xs)) k of None \<Rightarrow> JUndefined | Some v \<Rightarrow> v)"
| "get_prop (JStr s) k =
     Inr (if k = ''length'' then JNum (int (length s))
          else case map_of (own_props (JStr s)) k of None \<Rightarrow> JUndefined | Some v \<Rightarrow> v)"
| "get_prop (JBool b) k = Inr JUndefined"
| "get_prop (JNum n) k = Inr JUndefined"

text \<open>A property written in an object literal after a spread, \<open>{...o, k: v}\<close>: an own
  property \<open>k\<close> of \<open>o\<close> keeps its place and takes the new value, a new one goes last.\<close>

fun obj_set :: "(string \<times> jsval) list \<Rightarrow> string \<Rightarrow> jsval \<Rightarrow> (string \<times> jsval) list" where
  "obj_set [] k v = [(k, v)]"
| "obj_set ((k', v') # kvs) k v =
     (if k' = k then (k, v) # kvs else (k', v') # obj_set kvs k v)"

text \<open>Tests on values: an object, an array (\<open>Array.isArray\<close>), a string, and \<open>null\<close> or
  \<open>undefined\<close>.\<close>

fun is_obj :: "jsval \<Rightarrow> bool" where
  "is_obj (JObj kvs) = True"
| "is_obj v = False"

fun is_array :: "jsval \<Rightarrow> bool" where
  "is_array (JArr xs) = True"
| "is_array v = False"

fun is_string :: "jsval \<Rightarrow> bool" where
  "is_string (JStr s) = True"
| "is_string v = False"

definition nullish :: "jsval \<Rightarrow> bool" where
  "nullish v = (v = JNull \<or> v = JUndefined)"

text \<open>The property read where it cannot throw, and \<open>undefined\<close> where the read throws.\<close>

definition prop_of :: "jsval \<Rightarrow> string \<Rightarrow> jsval" where
  "prop_of v k = (case get_prop v k of Inr x \<Rightarrow> x | Inl e \<Rightarrow> JUndefined)"

text \<open>The elements of an array (none for any other value).\<close>

fun array_elems :: "jsval \<Rightarrow> jsval list" where
  "array_elems (JArr xs) = xs"
| "array_elems v = []"

text \<open>
  Strict equality \<open>===\<close>. Primitives are compared by value. Two objects or arrays are
  equal only when they are the same object; the values compared below are read from
  different properties of parsed JSON, which never share an object, so the comparison
  of two objects is false.
\<close>

fun strict_eq :: "jsval \<Rightarrow> jsval \<Rightarrow> bool" where
  "strict_eq JUndefined JUndefined = True"
| "strict_eq JNull JNull = True"
| "strict_eq (JBool a) (JBool b) = (a = b)"
| "strict_eq (JNum a) (JNum b) = (a = b)"
| "strict_eq (JStr a) (JStr b) = (a = b)"
| "strict_eq a b = False"

text \<open>\<open>map\<close> and \<open>forEach\<close> are methods of arrays only: on any other value of the model the
  call throws. \<open>forEach\<close> threads the variables that its callback updates.\<close>

definition js_map :: "(jsval \<Rightarrow> jsval result) \<Rightarrow> jsval \<Rightarrow> jsval result" where
  "js_map f v = (case v of JArr xs \<Rightarrow> rbind (map_result f xs) (\<lambda>ys. Inr (JArr ys))
                 | _ \<Rightarrow> Inl TypeError)"

fun fold_result :: "('a \<Rightarrow> 's \<Rightarrow> 's result) \<Rightarrow> 'a list \<Rightarrow> 's \<Rightarrow> 's result" where
  "fold_result f [] s = Inr s"
| "fold_result f (x # xs) s = rbind (f x s) (fold_result f xs)"

definition js_forEach :: "(jsval \<Rightarrow> 's \<Rightarrow> 's result) \<Rightarrow> jsval \<Rightarrow> 's \<Rightarrow> 's result" where
  "js_forEach f v s = (case v of JArr xs \<Rightarrow> fold_result f xs s | _ \<Rightarrow> Inl TypeError)"

subsection \<open>Strings\<close>

text \<open>\<open>String.prototype.includes\<close>: \<open>str_includes s sub\<close> holds when \<open>sub\<close> occurs in
  \<open>s\<close> as a contiguous run of characters.\<close>

fun starts_with :: "string \<Rightarrow> string \<Rightarrow> bool" where
  "starts_with s [] = True"
| "starts_with [] (c # cs) = False"
| "starts_with (d # ds) (c # cs) = (d = c \<and> starts_with ds cs)"

fun str_includes :: "string \<Rightarrow> string \<Rightarrow> bool" where
  "str_includes [] sub = (sub = [])"
| "str_includes (d # ds) sub = (starts_with (d # ds) sub \<or> str_includes ds sub)"

text \<open>\<open>s.split(c)\<close> for a separator of one character: always at least one part.\<close>

fun split_on :: "char \<Rightarrow> string \<Rightarrow> string list" where
  "split_on c [] = [[]]"
| "split_on c (x # xs) =
     (if x = c then [] # split_on c xs
      else (case split_on c xs of [] \<Rightarrow> [[x]] | p # ps \<Rightarrow> (x # p) # ps))"

text \<open>\<open>trim\<close> removes white space at both ends; of the ASCII characters these are tab,
  line feed, vertical tab, form feed, carriage return and space.\<close>

definition is_space :: "char \<Rightarrow> bool" where
  "is_space c = (c \<in> set [CHR 0x09, CHR 0x0A, CHR 0x0B, CHR 0x0C, CHR 0x0D, CHR '' ''])"

definition trim :: "string \<Rightarrow> string" where
  "trim s = rev (dropWhile is_space (rev (dropWhile is_space s)))"

text \<open>\<open>toLowerCase\<close> on ASCII: the letters A to Z move to a to z.\<close>

definition lower_char :: "char \<Rightarrow> char" where
  "lower_char c =
     (let n = (of_char c :: nat) in if 65 \<le> n \<and> n \<le> 90 then char_of (n + 32) else c)"

definition toLowerCase :: "string \<Rightarrow> string" where
  "toLowerCase s = map lower_char s"

text \<open>\<open>Array.prototype.join\<close>.\<close>

fun join_with :: "string \<Rightarrow> string list \<Rightarrow> string" where
  "join_with sep [] = []"
| "join_with sep [x] = x"
| "join_with sep (x # y # ys) = x @ sep @ join_with sep (y # ys)"

text \<open>
  \<open>ToString\<close>, which a template literal, \<open>toString()\<close> and the argument of
  \<open>String.prototype.includes\<close> apply. A number prints in decimal notation (as the
  integers below \<open>10^21\<close> do). An array prints its elements separated by commas,
  \<open>null\<close> and \<open>undefined\<close> among them as the empty string; an object prints as
  \<open>[object Object]\<close> (an object that brings its own \<open>toString\<close> is not modelled).
\<close>

fun to_string :: "jsval \<Rightarrow> string" where
  "to_string JUndefined = ''undefined''"
| "to_string JNull = ''null''"
| "to_string (JBool b) = (if b then ''true'' else ''false'')"
| "to_string (JNum n) = show_int n"
| "to_string (JStr s) = s"
| "to_string (JArr xs) =
     join_with '','' (map (\<lambda>x. if x = JNull \<or> x = JUndefined then [] else to_string x) xs)"
| "to_string (JObj kvs) = ''[object Object]''"

text \<open>
  The method calls of the query code, on whatever value they meet. \<open>v.includes(x)\<close>
  exists on strings (substring test against \<open>ToString x\<close>) and on arrays (membership,
  compared like \<open>===\<close>); \<open>split\<close> and \<open>toLowerCase\<close> exist on strings only. Calling a
  method that the value does not have throws.
\<close>

definition array_includes :: "jsval list \<Rightarrow> jsval \<Rightarrow> bool" where
  "array_includes xs x = list_ex (\<lambda>y. strict_eq y x) xs"

fun js_includes :: "jsval \<Rightarrow> jsval \<Rightarrow> bool result" where
  "js_includes (JStr s) x = Inr (str_includes s (to_string x))"
| "js_includes (JArr xs) x = Inr (array_includes xs x)"
| "js_includes v x = Inl TypeError"

fun js_split_comma :: "jsval \<Rightarrow> string list result" where
  "js_split_comma (JStr s) = Inr (split_on CHR '','' s)"
| "js_split_comma v = Inl TypeError"

fun js_toLowerCase :: "jsval \<Rightarrow> string result" where
  "js_toLowerCase (JStr s) = Inr (toLowerCase s)"
| "js_toLowerCase v = Inl TypeError"

section \<open>customFieldsValidator.js\<close>

text \<open>
  \<^verbatim>\<open>export function ensureCustomFields(item) {
    return { ...item, customFields: item.customFields || {} };
  }\<close>
\<close>

definition ensureCustomFields :: "jsval \<Rightarrow> jsval result" where
  "ensureCustomFields item =
     rbind (get_prop item ''customFields'') (\<lambda>cf.
       Inr (JObj (obj_set (own_props item) ''customFields'' (js_or cf (JObj [])))))"

text \<open>
  \<^verbatim>\<open>export function ensureCustomFieldsOnTasks(tasks) {
    return tasks.map(task => ({
      ...ensureCustomFields(task),
      subtasks: task.subtasks ? task.subtasks.map(ensureCustomFields) : (task.subtasks || [])
    }));
  }\<close>
  \<open>map\<close> is a method of arrays only: on any other value the call throws.
\<close>

definition ensureCustomFieldsOnTask :: "jsval \<Rightarrow> jsval result" where
  "ensureCustomFieldsOnTask task =
     rbind (ensureCustomFields task) (\<lambda>e.
     rbind (get_prop task ''subtasks'') (\<lambda>st.
     rbind (if truthy st then js_map ensureCustomFields st else Inr (js_or st (JArr []))) (\<lambda>st'.
       Inr (JObj (obj_set (own_props e) ''subtasks'' st')))))"

definition ensureCustomFieldsOnTasks :: "jsval \<Rightarrow> jsval result" where
  "ensureCustomFieldsOnTasks tasks = js_map ensureCustomFieldsOnTask tasks"

section \<open>backwardCompatibility.js\<close>

text \<open>
  \<^verbatim>\<open>export function ensureTasksBackwardCompatibility(tasks) {
    return ensureCustomFieldsOnTasks(tasks);
  }\<close>
\<close>

definition ensureTasksBackwardCompatibility :: "jsval \<Rightarrow> jsval result" where
  "ensureTasksBackwardCompatibility tasks = ensureCustomFieldsOnTasks tasks"

section \<open>subtaskValidator.js\<close>

text \<open>
  \<^verbatim>\<open>export function ensureSubtaskParentIds(tasks, logMigrations = false) {
    if (!Array.isArray(tasks)) { return tasks; }
    let migrationsPerformed = 0;
    const validatedTasks = tasks.map((task) => {
      if (!task.subtasks || !Array.isArray(task.subtasks) || task.subtasks.length === 0) {
        return task;
      }
      const validatedSubtasks = task.subtasks.map((subtask) => {
        if (!subtask.parentTaskId || subtask.parentTaskId !== task.id) {
          migrationsPerformed++;
          if (logMigrations && process.env.TASKMASTER_DEBUG === 'true') { console.log(...); }
          return { ...subtask, parentTaskId: task.id };
        }
        return subtask;
      });
      return { ...task, subtasks: validatedSubtasks };
    });
    if (migrationsPerformed > 0 && logMigrations) { ... console.log(...) ... }
    return validatedTasks;
  }\<close>
  The counter \<open>migrationsPerformed\<close> and the parameter \<open>logMigrations\<close> feed the
  console output only: they change neither the value returned nor whether the function
  returns, and the model leaves the console out.
\<close>

definition validateSubtask :: "jsval \<Rightarrow> jsval \<Rightarrow> jsval result" where
  "validateSubtask task subtask =
     rbind (get_prop subtask ''parentTaskId'') (\<lambda>p.
     rbind (get_prop task ''id'') (\<lambda>tid.
       if \<not> truthy p \<or> \<not> strict_eq p tid
       then Inr (JObj (obj_set (own_props subtask) ''parentTaskId'' tid))
       else Inr subtask))"

definition validateTask :: "jsval \<Rightarrow> jsval result" where
  "validateTask task =
     rbind (get_prop task ''subtasks'') (\<lambda>st.
       if \<not> truthy st \<or> \<not> is_array st \<or> st = JArr [] then Inr task
       else rbind (js_map (validateSubtask task) st) (\<lambda>validatedSubtasks.
              Inr (JObj (obj_set (own_props task) ''subtasks'' validatedSubtasks))))"

definition ensureSubtaskParentIds :: "jsval \<Rightarrow> jsval result" where
  "ensureSubtaskParentIds tasks =
     (if \<not> is_array tasks then Inr tasks else js_map validateTask tasks)"

text \<open>
  \<^verbatim>\<open>export function validateSubtaskStructure(tasks, options = {}) {
    const { fixIssues = true, logMigrations = false } = options;
    const issues = [];
    let validatedTasks = tasks;
    if (!Array.isArray(tasks)) {
      return { tasks: validatedTasks, issues: ['Tasks must be an array'], isValid: false };
    }
    if (fixIssues) { validatedTasks = ensureSubtaskParentIds(validatedTasks, logMigrations); }
    validatedTasks.forEach((task, taskIndex) => {
      if (!task.subtasks || !Array.isArray(task.subtasks)) { return; }
      const subtaskIds = new Set();
      task.subtasks.forEach((subtask, subtaskIndex) => {
        if (!subtask.id) {
          issues.push(`Task ${task.id}: Subtask at index ${subtaskIndex} missing id`);
        }
        if (!subtask.parentTaskId) {
          issues.push(`Task ${task.id}: Subtask ${subtask.id} missing parentTaskId`);
        } else if (subtask.parentTaskId !== task.id) {
          issues.push(`Task ${task.id}: Subtask ${subtask.id} has incorrect parentTaskId (${subtask.parentTaskId})`);
        }
        if (subtask.id) {
          if (subtaskIds.has(subtask.id)) {
            issues.push(`Task ${task.id}: Duplicate subtask ID ${subtask.id}`);
          } else { subtaskIds.add(subtask.id); }
        }
        if (!subtask.title) {
          issues.push(`Task ${task.id}: Subtask ${subtask.id} missing title`);
        }
      });
    });
    return { tasks: validatedTasks, issues, isValid: issues.length === 0 };
  }\<close>
  The first read in the inner callback, \<open>subtask.id\<close>, throws when the entry is \<open>null\<close> or
  \<open>undefined\<close>; once it has returned, no later read of that callback can throw, and they
  are written with \<open>prop_of\<close>. The fields \<open>tasks\<close> and \<open>issues\<close> of the result are named
  \<open>validatedTasks\<close> and \<open>validationIssues\<close> in the record.
\<close>

record validation =
  validatedTasks :: jsval
  validationIssues :: "string list"
  isValid :: bool

definition set_has :: "jsval list \<Rightarrow> jsval \<Rightarrow> bool" where
  "set_has s x = list_ex (\<lambda>y. strict_eq y x) s"

definition check_subtask ::
  "jsval \<Rightarrow> nat \<times> jsval \<Rightarrow> string list \<times> jsval list \<Rightarrow> (string list \<times> jsval list) result" where
  "check_subtask task entry state =
     (let subtaskIndex = fst entry; subtask = snd entry;
          issues = fst state; subtaskIds = snd state in
      rbind (get_prop subtask ''id'') (\<lambda>sid.
        let tid = prop_of task ''id'';
            p = prop_of subtask ''parentTaskId'';
            issues = (if \<not> truthy sid
              then issues @ [''Task '' @ to_string tid @ '': Subtask at index '' @
                             show_nat subtaskIndex @ '' missing id'']
              else issues);
            issues = (if \<not> truthy p
              then issues @ [''Task '' @ to_string tid @ '': Subtask '' @ to_string sid @
                             '' missing parentTaskId'']
              else if \<not> strict_eq p tid
              then issues @ [''Task '' @ to_string tid @ '': Subtask '' @ to_string sid @
                             '' has incorrect parentTaskId ('' @ to_string p @ '')'']
              else issues);
            duplicate = (truthy sid \<and> set_has subtaskIds sid);
            issues = (if duplicate
              then issues @ [''Task '' @ to_string tid @ '': Duplicate subtask ID '' @ to_string sid]
              else issues);
            subtaskIds = (if truthy sid \<and> \<not> duplicate then subtaskIds @ [sid] else subtaskIds);
            issues = (if \<not> truthy (prop_of subtask ''title'')
              then issues @ [''Task '' @ to_string tid @ '': Subtask '' @ to_string sid @
                             '' missing title'']
              else issues)
        in Inr (issues, subtaskIds)))"

definition check_task :: "jsval \<Rightarrow> string list \<Rightarrow> string list result" where
  "check_task task issues =
     rbind (get_prop task ''subtasks'') (\<lambda>st.
       if \<not> truthy st \<or> \<not> is_array st then Inr issues
       else rbind (fold_result (check_subtask task) (enumerate 0 (array_elems st)) (issues, []))
              (\<lambda>state. Inr (fst state)))"

definition validateSubtaskStructure :: "jsval \<Rightarrow> bool \<Rightarrow> validation result" where
  "validateSubtaskStructure tasks fixIssues =
     (if \<not> is_array tasks
      then Inr \<lparr>validatedTasks = tasks, validationIssues = [''Tasks must be an array''],
                isValid = False\<rparr>
      else rbind (if fixIssues then ensureSubtaskParentIds tasks else Inr tasks) (\<lambda>validated.
           rbind (js_forEach check_task validated []) (\<lambda>issues.
             Inr \<lparr>validatedTasks = validated, validationIssues = issues,
                   isValid = (length issues = 0)\<rparr>)))"

text \<open>
  \<^verbatim>\<open>export function findOrphanedSubtasks(tasks) {
    if (!Array.isArray(tasks)) { return []; }
    const taskIds = new Set(tasks.map((task) => task.id));
    const orphanedSubtasks = [];
    tasks.forEach((task) => {
      if (!task.subtasks || !Array.isArray(task.subtasks)) { return; }
      task.subtasks.forEach((subtask) => {
        if (subtask.parentTaskId && !taskIds.has(subtask.parentTaskId)) {
          orphanedSubtasks.push({
            ...subtask,
            actualParentId: task.id,
            invalidParentId: subtask.parentTaskId,
            context: `Found in task ${task.id} but references non-existent parent ${subtask.parentTaskId}`
          });
        }
      });
    });
    return orphanedSubtasks;
  }\<close>
\<close>

definition orphan_entry :: "jsval list \<Rightarrow> jsval \<Rightarrow> jsval \<Rightarrow> jsval list \<Rightarrow> jsval list result" where
  "orphan_entry taskIds task subtask orphaned =
     rbind (get_prop subtask ''parentTaskId'') (\<lambda>p.
       let tid = prop_of task ''id'' in
       Inr (if truthy p \<and> \<not> set_has taskIds p
            then orphaned @ [JObj (obj_set (obj_set (obj_set (own_props subtask)
                   ''actualParentId'' tid) ''invalidParentId'' p)
                   ''context'' (JStr (''Found in task '' @ to_string tid @
                      '' but references non-existent parent '' @ to_string p)))]
            else orphaned))"

definition orphans_of_task :: "jsval list \<Rightarrow> jsval \<Rightarrow> jsval list \<Rightarrow> jsval list result" where
  "orphans_of_task taskIds task orphaned =
     rbind (get_prop task ''subtasks'') (\<lambda>st.
       if \<not> truthy st \<or> \<not> is_array st then Inr orphaned
       else fold_result (orphan_entry taskIds task) (array_elems st) orphaned)"

definition findOrphanedSubtasks :: "jsval \<Rightarrow> jsval list result" where
  "findOrphanedSubtasks tasks =
     (if \<not> is_array tasks then Inr []
      else rbind (map_result (\<lambda>task. get_prop task ''id'') (array_elems tasks)) (\<lambda>taskIds.
             fold_result (orphans_of_task taskIds) (array_elems tasks) []))"

text \<open>
  JavaScript numbers are IEEE 754 doubles, here the rational numbers they denote. A sum
  of counters is exact (an array has fewer than \<open>2^32\<close> elements); a quotient and a
  product are rounded to the nearest double, ties to the even significand of 53 bits.
  \<open>binade x\<close> is the exponent \<open>e\<close> with \<open>2^e \<le> x < 2^(e+1)\<close>. Overflow and subnormal
  numbers are out of the range that the score takes (0 or between \<open>2^-32\<close> and 100).
\<close>

definition pow2 :: "int \<Rightarrow> rat" where
  "pow2 e = (if 0 \<le> e then 2 ^ nat e else 1 / 2 ^ nat (- e))"

function bit_length :: "int \<Rightarrow> int" where
  "bit_length n = (if n \<le> 0 then 0 else bit_length (n div 2) + 1)"
  by pat_completeness auto

termination
  by (relation "measure nat") auto

declare bit_length.simps [simp del]

definition binade :: "rat \<Rightarrow> int" where
  "binade x =
     (let (p, q) = quotient_of x;
          e = bit_length p - bit_length q
      in if pow2 e \<le> x then e else e - 1)"

definition round_half_even :: "rat \<Rightarrow> int" where
  "round_half_even x =
     (let f = \<lfloor>x\<rfloor>; d = x - of_int f
      in if d < 1/2 then f else if 1/2 < d then f + 1 else if even f then f else f + 1)"

definition to_double :: "rat \<Rightarrow> rat" where
  "to_double x =
     (if x = 0 then 0
      else let a = \<bar>x\<bar>; u = pow2 (binade a - 52); m = of_int (round_half_even (a / u)) * u
           in if x < 0 then - m else m)"

definition js_div :: "rat \<Rightarrow> rat \<Rightarrow> rat" where
  "js_div a b = to_double (a / b)"

definition js_mul :: "rat \<Rightarrow> rat \<Rightarrow> rat" where
  "js_mul a b = to_double (a * b)"

text \<open>
  \<open>x.toFixed(1)\<close> for \<open>|x| < 10^21\<close>: the integer \<open>n\<close> for which \<open>n / 10\<close> is nearest to
  \<open>|x|\<close>, the larger one of two; its decimal digits, with a leading zero when there is one
  digit only; a point before the last digit; a minus sign for \<open>x < 0\<close>.
\<close>

definition toFixed1 :: "rat \<Rightarrow> string" where
  "toFixed1 x =
     (let n = nat \<lfloor>\<bar>x\<bar> * 10 + 1/2\<rfloor>;
          m = (if n < 10 then ''0'' @ show_nat n else show_nat n)
      in (if x < 0 then ''-'' else '''') @ butlast m @ ''.'' @ [last m])"

text \<open>
  \<^verbatim>\<open>export function createSubtaskIntegrityReport(tasks) {
    const validation = validateSubtaskStructure(tasks, { fixIssues: false });
    const orphanedSubtasks = findOrphanedSubtasks(tasks);
    let totalSubtasks = 0;
    let tasksWithSubtasks = 0;
    let subtasksWithIssues = 0;
    tasks.forEach((task) => {
      if (task.subtasks && Array.isArray(task.subtasks) && task.subtasks.length > 0) {
        tasksWithSubtasks++;
        totalSubtasks += task.subtasks.length;
        task.subtasks.forEach((subtask) => {
          if (!subtask.parentTaskId || subtask.parentTaskId !== task.id) {
            subtasksWithIssues++;
          }
        });
      }
    });
    return {
      summary: {
        totalTasks: tasks.length, tasksWithSubtasks, totalSubtasks, subtasksWithIssues,
        orphanedSubtasks: orphanedSubtasks.length,
        integrityScore: totalSubtasks > 0 ?
          ((totalSubtasks - subtasksWithIssues) / totalSubtasks * 100).toFixed(1) + '%' :
          '100%'
      },
      issues: validation.issues,
      orphanedSubtasks,
      isHealthy: validation.isValid && orphanedSubtasks.length === 0
    };
  }\<close>
  The field \<open>orphanedSubtasks\<close> of the summary is named \<open>orphanedCount\<close> in the record.
\<close>

record counters =
  c_tasksWithSubtasks :: nat
  c_totalSubtasks :: nat
  c_subtasksWithIssues :: nat

record summary =
  totalTasks :: nat
  tasksWithSubtasks :: nat
  totalSubtasks :: nat
  subtasksWithIssues :: nat
  orphanedCount :: nat
  integrityScore :: string

record report =
  summary :: summary
  issues :: "string list"
  orphanedSubtasks :: "jsval list"
  isHealthy :: bool

definition count_subtask :: "jsval \<Rightarrow> jsval \<Rightarrow> nat \<Rightarrow> nat result" where
  "count_subtask task subtask n =
     rbind (get_prop subtask ''parentTaskId'') (\<lambda>p.
       Inr (if \<not> truthy p \<or> \<not> strict_eq p (prop_of task ''id'') then n + 1 else n))"

definition count_task :: "jsval \<Rightarrow> counters \<Rightarrow> counters result" where
  "count_task task c =
     rbind (get_prop task ''subtasks'') (\<lambda>st.
       if truthy st \<and> is_array st \<and> 0 < length (array_elems st)
       then rbind (fold_result (count_subtask task) (array_elems st) (c_subtasksWithIssues c))
              (\<lambda>n. Inr \<lparr>c_tasksWithSubtasks = c_tasksWithSubtasks c + 1,
                         c_totalSubtasks = c_totalSubtasks c + length (array_elems st),
                         c_subtasksWithIssues = n\<rparr>)
       else Inr c)"

definition integrity_score :: "nat \<Rightarrow> nat \<Rightarrow> string" where
  "integrity_score n_total n_issues =
     (if 0 < n_total
      then toFixed1 (js_mul (js_div (of_int (int n_total - int n_issues)) (of_nat n_total)) 100)
             @ ''%''
      else ''100%'')"

definition createSubtaskIntegrityReport :: "jsval \<Rightarrow> report result" where
  "createSubtaskIntegrityReport tasks =
     rbind (validateSubtaskStructure tasks False) (\<lambda>validation.
     rbind (findOrphanedSubtasks tasks) (\<lambda>orphaned.
     rbind (js_forEach count_task tasks
              \<lparr>c_tasksWithSubtasks = 0, c_totalSubtasks = 0, c_subtasksWithIssues = 0\<rparr>) (\<lambda>c.
       Inr \<lparr>summary = \<lparr>totalTasks = length (array_elems tasks),
                        tasksWithSubtasks = c_tasksWithSubtasks c,
                        totalSubtasks = c_totalSubtasks c,
                        subtasksWithIssues = c_subtasksWithIssues c,
                        orphanedCount = length orphaned,
                        integrityScore =
                          integrity_score (c_totalSubtasks c) (c_subtasksWithIssues c)\<rparr>,
             issues = validationIssues validation,
             orphanedSubtasks = orphaned,
             isHealthy = (isValid validation \<and> length orphaned = 0)\<rparr>)))"

section \<open>queryTranslator.js\<close>

text \<open>
  \<^verbatim>\<open>const CORE_FIELDS = [
    'id', 'title', 'description', 'details', 'testStrategy',
    'status', 'priority', 'dependencies', 'subtasks', 'customFields',
    'file', 'projectRoot', 'tag', 'withSubtasks', 'complexityReport'
  ];\<close>
\<close>

definition CORE_FIELDS :: "string list" where
  "CORE_FIELDS = [''id'', ''title'', ''description'', ''details'', ''testStrategy'',
     ''status'', ''priority'', ''dependencies'', ''subtasks'', ''customFields'',
     ''file'', ''projectRoot'', ''tag'', ''withSubtasks'', ''complexityReport'']"

text \<open>
  \<^verbatim>\<open>function translateQueryParameters(params) {
    const translated = { coreFields: {}, customFields: {} };
    Object.entries(params).forEach(([key, value]) => {
      if (CORE_FIELDS.includes(key)) { translated.coreFields[key] = value; }
      else { translated.customFields[key] = value; }
    });
    return translated;
  }\<close>
  The parameters are the own properties of \<open>params\<close> in enumeration order. The
  assignment \<open>o[key] = value\<close> adds or overwrites an own property, except for the key
  \<open>__proto__\<close>, where it reaches the prototype setter and leaves the own properties as
  they are.
\<close>

record filters =
  coreFields :: "(string \<times> jsval) list"
  customFields :: "(string \<times> jsval) list"

definition obj_assign :: "(string \<times> jsval) list \<Rightarrow> string \<Rightarrow> jsval \<Rightarrow> (string \<times> jsval) list" where
  "obj_assign kvs k v = (if k = ''__proto__'' then kvs else obj_set kvs k v)"

fun translate_entries :: "(string \<times> jsval) list \<Rightarrow> filters \<Rightarrow> filters" where
  "translate_entries [] translated = translated"
| "translate_entries ((key, v) # entries) translated =
     translate_entries entries
       (if key \<in> set CORE_FIELDS
        then translated\<lparr>coreFields := obj_assign (coreFields translated) key v\<rparr>
        else translated\<lparr>customFields := obj_assign (customFields translated) key v\<rparr>)"

definition translateQueryParameters :: "(string \<times> jsval) list \<Rightarrow> filters" where
  "translateQueryParameters params =
     translate_entries params \<lparr>coreFields = [], customFields = []\<rparr>"

text \<open>
  The repository holds two copies of \<open>filterTasks\<close>. This is the one of
  \<^verbatim>\<open>scripts/modules/utils/queryTranslator.js\<close>:
  \<^verbatim>\<open>function filterTasks(tasks, filters) {
    let results = [...tasks];
    Object.entries(filters.coreFields).forEach(([field, value]) => {
      results = results.filter(task => {
        if (field === 'status' && value.includes(',')) {
          const statuses = value.split(',').map(s => s.trim());
          return statuses.includes(task[field]);
        }
        return task[field] === value || (task[field] && task[field].toString().includes(value));
      });
    });
    Object.entries(filters.customFields).forEach(([field, value]) => {
      results = results.filter(task => {
        if (!task.customFields || !task.customFields[field]) { return false; }
        if (value.includes(',')) {
          const values = value.split(',').map(v => v.trim());
          return values.includes(task.customFields[field]);
        }
        return task.customFields[field] === value ||
               task.customFields[field].includes(value);
      });
    });
    return results;
  }\<close>
  A filter callback runs once for each task still in \<open>results\<close>, in order, and the first
  exception ends the call.
\<close>

definition core_generic_match :: "string \<Rightarrow> jsval \<Rightarrow> jsval \<Rightarrow> bool result" where
  "core_generic_match field v task =
     rbind (get_prop task field) (\<lambda>tf.
       if strict_eq tf v then Inr True
       else if \<not> truthy tf then Inr False
       else Inr (str_includes (to_string tf) (to_string v)))"

definition core_match :: "string \<Rightarrow> jsval \<Rightarrow> jsval \<Rightarrow> bool result" where
  "core_match field v task =
     rbind (if field = ''status'' then js_includes v (JStr '','') else Inr False) (\<lambda>comma.
       if comma
       then rbind (js_split_comma v) (\<lambda>parts.
            rbind (get_prop task field) (\<lambda>tf.
              Inr (array_includes (map (\<lambda>s. JStr (trim s)) parts) tf)))
       else core_generic_match field v task)"

definition custom_match :: "string \<Rightarrow> jsval \<Rightarrow> jsval \<Rightarrow> bool result" where
  "custom_match field v task =
     rbind (get_prop task ''customFields'') (\<lambda>cf.
       if \<not> truthy cf then Inr False
       else rbind (get_prop cf field) (\<lambda>x.
         if \<not> truthy x then Inr False
         else rbind (js_includes v (JStr '','')) (\<lambda>comma.
           if comma
           then rbind (js_split_comma v) (\<lambda>parts.
                  Inr (array_includes (map (\<lambda>s. JStr (trim s)) parts) x))
           else if strict_eq x v then Inr True
           else js_includes x v)))"

text \<open>\<open>forEach\<close> over the entries of a filter object, each entry filtering \<open>results\<close>.\<close>

fun apply_filters ::
  "(string \<Rightarrow> jsval \<Rightarrow> jsval \<Rightarrow> bool result) \<Rightarrow> (string \<times> jsval) list \<Rightarrow> jsval list
     \<Rightarrow> jsval list result" where
  "apply_filters m [] results = Inr results"
| "apply_filters m ((field, v) # entries) results =
     rbind (filter_result (m field v) results) (apply_filters m entries)"

text \<open>\<open>[...tasks]\<close>: the elements of an array, the characters of a string; any other
  value of the model is not iterable.\<close>

fun spread_array :: "jsval \<Rightarrow> jsval list result" where
  "spread_array (JArr xs) = Inr xs"
| "spread_array (JStr s) = Inr (map (\<lambda>c. JStr [c]) s)"
| "spread_array v = Inl TypeError"

definition filterTasks :: "jsval \<Rightarrow> filters \<Rightarrow> jsval list result" where
  "filterTasks tasks fs =
     rbind (spread_array tasks) (\<lambda>results.
     rbind (apply_filters core_match (coreFields fs) results) (\<lambda>results.
       apply_filters custom_match (customFields fs) results))"

text \<open>
  The second copy (the file that opens with the header \<^verbatim>\<open>queryTranslator.js\<close> and
  \<^verbatim>\<open>@since 0.18.2\<close>) differs in the core filters only:
  \<^verbatim>\<open>results = results.filter((task) => {
      if (field === 'status' && value.includes(',')) {
        // Handle comma-separated status values (case-insensitive)
        const statuses = value.split(',').map((s) => s.trim().toLowerCase());
        return statuses.includes(task[field].toLowerCase());
      }
      // Handle single status values (case-insensitive for status field)
      if (field === 'status') {
        return task[field].toLowerCase() === value.toLowerCase();
      }
      return (task[field] === value ||
              (task[field] && task[field].toString().includes(value)));
    });\<close>
\<close>

definition core_match_ci :: "string \<Rightarrow> jsval \<Rightarrow> jsval \<Rightarrow> bool result" where
  "core_match_ci field v task =
     rbind (if field = ''status'' then js_includes v (JStr '','') else Inr False) (\<lambda>comma.
       if comma
       then rbind (js_split_comma v) (\<lambda>parts.
            rbind (get_prop task field) (\<lambda>tf.
            rbind (js_toLowerCase tf) (\<lambda>l.
              Inr (l \<in> set (map (\<lambda>s. toLowerCase (trim s)) parts)))))
       else if field = ''status''
       then rbind (get_prop task field) (\<lambda>tf.
            rbind (js_toLowerCase tf) (\<lambda>l.
            rbind (js_toLowerCase v) (\<lambda>r. Inr (l = r))))
       else core_generic_match field v task)"

definition filterTasks_ci :: "jsval \<Rightarrow> filters \<Rightarrow> jsval list result" where
  "filterTasks_ci tasks fs =
     rbind (spread_array tasks) (\<lambda>results.
     rbind (apply_filters core_match_ci (coreFields fs) results) (\<lambda>results.
       apply_filters custom_match (customFields fs) results))"

section \<open>fuzzyTaskSearch.js\<close>

text \<open>
  \<^verbatim>\<open>const FIELD_WEIGHTS = {
    title: 2.0, description: 1.5, details: 1.0, dependencyTitles: 0.5,
    epic: 1.8, component: 1.5, taskType: 1.6, assignee: 1.2, sprint: 1.4,
    default: 1.0
  };
  function getWeightForField(fieldName) {
    return FIELD_WEIGHTS[fieldName] || FIELD_WEIGHTS.default;
  }\<close>
  A weight is the number its literal denotes. \<open>FIELD_WEIGHTS\<close> is an object literal, so
  a name that it does not define but \<open>Object.prototype\<close> does reads as that inherited
  member, which is truthy and is what the function then returns in place of a number.
\<close>

datatype weight = Weight rat | Inherited string

definition FIELD_WEIGHTS :: "(string \<times> rat) list" where
  "FIELD_WEIGHTS = [(''title'', 2), (''description'', 3/2), (''details'', 1),
     (''dependencyTitles'', 1/2), (''epic'', 9/5), (''component'', 3/2),
     (''taskType'', 8/5), (''assignee'', 6/5), (''sprint'', 7/5), (''default'', 1)]"

definition object_prototype_names :: "string list" where
  "object_prototype_names = [''constructor'', ''__defineGetter__'', ''__defineSetter__'',
     ''hasOwnProperty'', ''__lookupGetter__'', ''__lookupSetter__'', ''isPrototypeOf'',
     ''propertyIsEnumerable'', ''toString'', ''valueOf'', ''__proto__'', ''toLocaleString'']"

definition getWeightForField :: "string \<Rightarrow> weight" where
  "getWeightForField fieldName =
     (case map_of FIELD_WEIGHTS fieldName of
        Some w \<Rightarrow> if w \<noteq> 0 then Weight w else Weight (the (map_of FIELD_WEIGHTS ''default''))
      | None \<Rightarrow> if fieldName \<in> set object_prototype_names then Inherited fieldName
                else Weight (the (map_of FIELD_WEIGHTS ''default'')))"

text \<open>
  \<^verbatim>\<open>function getCustomFieldNames(tasks) {
    const fieldNames = new Set();
    tasks.forEach(task => {
      if (task.customFields) {
        Object.keys(task.customFields).forEach(field => fieldNames.add(field));
      }
      if (task.subtasks) {
        task.subtasks.forEach(subtask => {
          if (subtask.customFields) {
            Object.keys(subtask.customFields).forEach(field => fieldNames.add(field));
          }
        });
      }
    });
    return Array.from(fieldNames);
  }\<close>
  The \<open>Set\<close> is the list of its elements in insertion order. \<open>forEach\<close> is a method of
  arrays only.
\<close>

definition set_add :: "string list \<Rightarrow> string \<Rightarrow> string list" where
  "set_add s x = (if x \<in> set s then s else s @ [x])"

definition add_all :: "string list \<Rightarrow> string list \<Rightarrow> string list" where
  "add_all s xs = fold (\<lambda>x s. set_add s x) xs s"

definition add_custom_keys :: "jsval \<Rightarrow> string list \<Rightarrow> string list result" where
  "add_custom_keys item fieldNames =
     rbind (get_prop item ''customFields'') (\<lambda>cf.
       Inr (if truthy cf then add_all fieldNames (map fst (own_props cf)) else fieldNames))"

definition add_task_keys :: "jsval \<Rightarrow> string list \<Rightarrow> string list result" where
  "add_task_keys task fieldNames =
     rbind (add_custom_keys task fieldNames) (\<lambda>fieldNames.
     rbind (get_prop task ''subtasks'') (\<lambda>st.
       if truthy st then js_forEach add_custom_keys st fieldNames else Inr fieldNames))"

definition getCustomFieldNames :: "jsval \<Rightarrow> string list result" where
  "getCustomFieldNames tasks = js_forEach add_task_keys tasks []"

text \<open>
  \<^verbatim>\<open>function generateSearchKeys(tasks, searchType = 'default') {
    const coreFields = ['title', 'description', 'details', 'dependencyTitles'];
    const customFields = getCustomFieldNames(tasks);
    const keys = [
      ...coreFields.map(field => ({ name: field, weight: getWeightForField(field) })),
      ...customFields.map(field => ({
        name: `customFields.${field}`, weight: getWeightForField(field) }))
    ];
    return keys;
  }\<close>
\<close>

record search_key =
  name :: string
  weight :: weight

definition generateSearchKeys :: "jsval \<Rightarrow> search_key list result" where
  "generateSearchKeys tasks =
     (let coreFields = [''title'', ''description'', ''details'', ''dependencyTitles''] in
      rbind (getCustomFieldNames tasks) (\<lambda>customFields.
        Inr (map (\<lambda>field. \<lparr>name = field, weight = getWeightForField field\<rparr>) coreFields @
             map (\<lambda>field. \<lparr>name = ''customFields.'' @ field,
                             weight = getWeightForField field\<rparr>) customFields)))"

section \<open>Notions and inputs of the statements\<close>

text \<open>The entries of the \<open>subtasks\<close> array of a task (none when there is no such array).\<close>

definition subtask_entries :: "jsval \<Rightarrow> jsval list" where
  "subtask_entries t = (case prop_of t ''subtasks'' of JArr ss \<Rightarrow> ss | _ \<Rightarrow> [])"

text \<open>Well-formed collections of the data model: an array of task objects, where the
  \<open>subtasks\<close> of a task are absent, \<open>null\<close>, or an array of objects.\<close>

definition wf_task :: "jsval \<Rightarrow> bool" where
  "wf_task t = (is_obj t \<and>
     (case prop_of t ''subtasks'' of
        JUndefined \<Rightarrow> True
      | JNull \<Rightarrow> True
      | JArr ss \<Rightarrow> list_all is_obj ss
      | _ \<Rightarrow> False))"

definition wf_tasks :: "jsval \<Rightarrow> bool" where
  "wf_tasks tasks = (case tasks of JArr ts \<Rightarrow> list_all wf_task ts | _ \<Rightarrow> False)"

text \<open>All own properties of a value but one.\<close>

definition drop_prop :: "string \<Rightarrow> jsval \<Rightarrow> (string \<times> jsval) list" where
  "drop_prop k v = filter (\<lambda>kv. fst kv \<noteq> k) (own_props v)"

text \<open>The tasks on which the pass below is shown to return: objects whose subtask entries
  are neither \<open>null\<close> nor \<open>undefined\<close>.\<close>

definition entries_ok :: "jsval \<Rightarrow> bool" where
  "entries_ok t = (is_obj t \<and> list_all (\<lambda>s. \<not> nullish s) (subtask_entries t))"

text \<open>
  The quantities of the statements about the report: the tasks on which it is computed
  without an exception, whether a subtask carries its parent's id, and the two counts.
\<close>

definition entries_defined :: "jsval \<Rightarrow> bool" where
  "entries_defined t = (\<not> nullish t \<and> list_all (\<lambda>s. \<not> nullish s) (subtask_entries t))"

definition parent_ok :: "jsval \<Rightarrow> jsval \<Rightarrow> bool" where
  "parent_ok t s =
     (truthy (prop_of s ''parentTaskId'') \<and> strict_eq (prop_of s ''parentTaskId'') (prop_of t ''id''))"

definition n_subtasks :: "jsval list \<Rightarrow> nat" where
  "n_subtasks ts = sum_list (map (\<lambda>t. length (subtask_entries t)) ts)"

definition n_issues :: "jsval list \<Rightarrow> nat" where
  "n_issues ts =
     sum_list (map (\<lambda>t. length (filter (\<lambda>s. \<not> parent_ok t s) (subtask_entries t))) ts)"

text \<open>The \<open>epic\<close> custom field of a task (\<open>undefined\<close> when the task has none).\<close>

definition epic_of :: "jsval \<Rightarrow> jsval" where
  "epic_of t = prop_of (prop_of t ''customFields'') ''epic''"

text \<open>
  The status comparison in the words of the specification, read as case-insensitive
  throughout: with a comma in the filter value, the value is split on the comma, each part
  trimmed, and the status matches when its lower-cased form is one of the lower-cased
  parts; without a comma the status matches when it equals the value up to case.
\<close>

definition status_matches :: "string \<Rightarrow> string \<Rightarrow> bool" where
  "status_matches v s =
     (if CHR '','' \<in> set v
      then toLowerCase s \<in> set (map (\<lambda>p. toLowerCase (trim p)) (split_on CHR '','' v))
      else toLowerCase s = toLowerCase v)"

text \<open>The custom field names that a task brings: its own, then those of its subtasks.\<close>

definition keys_of :: "jsval \<Rightarrow> string list" where
  "keys_of item =
     (if truthy (prop_of item ''customFields'')
      then map fst (own_props (prop_of item ''customFields'')) else [])"

definition task_keys :: "jsval \<Rightarrow> string list" where
  "task_keys t = keys_of t @ concat (map keys_of (subtask_entries t))"

text \<open>The tasks that the scan of \<open>getCustomFieldNames\<close> passes without an exception.\<close>

definition scan_ok :: "jsval \<Rightarrow> bool" where
  "scan_ok t = (\<not> nullish t \<and>
     (truthy (prop_of t ''subtasks'') \<longrightarrow>
        is_array (prop_of t ''subtasks'') \<and> list_all (\<lambda>s. \<not> nullish s) (subtask_entries t)))"

text \<open>The legacy collection of the migration scenario:
  \<^verbatim>\<open>[{id:1, title:"T1", subtasks:[{id:1,title:"S1"}, {id:2,title:"S2",parentTaskId:999}]}]\<close>\<close>

definition legacy_task :: jsval where
  "legacy_task = JObj [(''id'', JNum 1), (''title'', JStr ''T1''),
     (''subtasks'', JArr [
        JObj [(''id'', JNum 1), (''title'', JStr ''S1'')],
        JObj [(''id'', JNum 2), (''title'', JStr ''S2''), (''parentTaskId'', JNum 999)]])]"

definition legacy_tasks :: jsval where
  "legacy_tasks = JArr [legacy_task]"

text \<open>Collections with malformed subtask entries: one with an entry that is \<open>null\<close>, and
  one with an object without \<open>id\<close> followed by a number.\<close>

definition tasks_null_entry :: jsval where
  "tasks_null_entry = JArr [JObj [(''id'', JNum 1), (''subtasks'', JArr [JNull])]]"

definition tasks_malformed_entries :: "jsval list" where
  "tasks_malformed_entries =
     [JObj [(''id'', JNum 1), (''subtasks'', JArr [JObj [(''title'', JStr ''S'')], JNum 5])]]"

text \<open>A collection whose first task has no \<open>subtasks\<close> property and whose second has
  \<open>subtasks: null\<close>.\<close>

definition tasks_without_subtasks :: "jsval list" where
  "tasks_without_subtasks =
     [JObj [(''id'', JNum 1)], JObj [(''id'', JNum 2), (''subtasks'', JNull)]]"

text \<open>Three tasks of the statements about the query code.\<close>

definition task_pending :: jsval where
  "task_pending = JObj [(''id'', JNum 1), (''status'', JStr ''pending'')]"

definition task_epic :: jsval where
  "task_epic = JObj [(''id'', JNum 1), (''status'', JStr ''pending''),
     (''customFields'', JObj [(''epic'', JStr ''EPIC-12345'')])]"

definition task_epic_5678 :: jsval where
  "task_epic_5678 = JObj [(''id'', JNum 2), (''status'', JStr ''Done''),
     (''customFields'', JObj [(''epic'', JStr ''EPIC-5678'')])]"

text \<open>A task without custom fields, and fifty custom fields \<open>field0\<close>, ..., \<open>field49\<close>.\<close>

definition task_plain :: jsval where
  "task_plain = JObj [(''id'', JNum 1), (''title'', JStr ''Task 1'')]"

definition fifty_fields :: "(string \<times> jsval) list" where
  "fifty_fields = map (\<lambda>i. (''field'' @ show_nat i, JStr (''value'' @ show_nat i))) [0..<50]"

text \<open>Three tasks with four subtasks, two of them with a missing or wrong parent id.\<close>

definition report_tasks :: "jsval list" where
  "report_tasks = [
     JObj [(''id'', JNum 1), (''title'', JStr ''Task without subtasks'')],
     JObj [(''id'', JNum 2), (''title'', JStr ''Task with good subtasks''), (''subtasks'', JArr [
       JObj [(''id'', JNum 1), (''title'', JStr ''Good Subtask 1''), (''parentTaskId'', JNum 2)],
       JObj [(''id'', JNum 2), (''title'', JStr ''Good Subtask 2''), (''parentTaskId'', JNum 2)]])],
     JObj [(''id'', JNum 3), (''title'', JStr ''Task with problematic subtasks''),
       (''subtasks'', JArr [
       JObj [(''id'', JNum 1), (''title'', JStr ''Missing parentTaskId'')],
       JObj [(''id'', JNum 2), (''title'', JStr ''Wrong parentTaskId''),
             (''parentTaskId'', JNum 999)]])]]"

section \<open>Proofs\<close>

subsection \<open>Shared lemmas\<close>


lemma rbind_Inr_iff: "rbind m f = Inr y \<longleftrightarrow> (\<exists>x. m = Inr x \<and> f x = Inr y)"
  by (cases m) (simp_all add: rbind_def)

lemma rbind_Inr [simp]: "rbind (Inr x) f = f x"
  by (simp add: rbind_def)

lemma rbind_Inl [simp]: "rbind (Inl e) f = Inl e"
  by (simp add: rbind_def)

lemma map_result_Inr_iff:
  "map_result f xs = Inr ys \<longleftrightarrow> list_all2 (\<lambda>x y. f x = Inr y) xs ys"
proof (induction xs arbitrary: ys)
  case Nil
  show ?case by auto
next
  case (Cons x xs)
  show ?case
    by (cases ys) (auto simp: rbind_Inr_iff Cons.IH)
qed

lemma map_result_total:
  "(\<And>x. x \<in> set xs \<Longrightarrow> \<exists>y. f x = Inr y) \<Longrightarrow> \<exists>ys. map_result f xs = Inr ys"
proof (induction xs)
  case Nil
  show ?case by simp
next
  case (Cons x xs)
  then obtain y ys where "f x = Inr y" "map_result f xs = Inr ys"
    by (meson list.set_intros)
  then show ?case by simp
qed

lemma map_of_obj_set_same [simp]: "map_of (obj_set kvs k v) k = Some v"
  by (induction kvs) auto

lemma map_of_obj_set_other [simp]: "k' \<noteq> k \<Longrightarrow> map_of (obj_set kvs k v) k' = map_of kvs k'"
  by (induction kvs) auto

lemma obj_set_same_value: "map_of kvs k = Some v \<Longrightarrow> obj_set kvs k v = kvs"
  by (induction kvs) (auto split: if_splits)

lemma filter_obj_set:
  "filter (\<lambda>kv. fst kv \<noteq> k) (obj_set kvs k v) = filter (\<lambda>kv. fst kv \<noteq> k) kvs"
  by (induction kvs) auto

lemma truthy_js_or_obj [simp]: "truthy (js_or cf (JObj []))"
  by (simp add: js_or_def)

lemma ensureCustomFields_fixed:
  assumes "ensureCustomFields v = Inr w"
  shows "ensureCustomFields w = Inr w"
proof -
  from assms obtain cf where cf: "get_prop v ''customFields'' = Inr cf"
    and w: "w = JObj (obj_set (own_props v) ''customFields'' (js_or cf (JObj [])))"
    by (auto simp: ensureCustomFields_def rbind_Inr_iff)
  show ?thesis
    by (simp add: w ensureCustomFields_def js_or_def obj_set_same_value)
qed

lemma map_result_fixed:
  assumes "map_result f xs = Inr ys" "\<And>x y. f x = Inr y \<Longrightarrow> f y = Inr y"
  shows "map_result f ys = Inr ys"
proof -
  from assms(1) have "list_all2 (\<lambda>x y. f x = Inr y) xs ys"
    by (simp add: map_result_Inr_iff)
  then have "list_all2 (\<lambda>x y. f x = Inr y) ys ys"
    by (induction rule: list_all2_induct) (auto intro: assms(2))
  then show ?thesis by (simp add: map_result_Inr_iff)
qed

lemma ensureCustomFieldsOnTask_fixed:
  assumes "ensureCustomFieldsOnTask t = Inr t'"
  shows "ensureCustomFieldsOnTask t' = Inr t'"
proof -
  from assms obtain e st st' where e: "ensureCustomFields t = Inr e"
    and st: "get_prop t ''subtasks'' = Inr st"
    and st': "(if truthy st then js_map ensureCustomFields st else Inr (js_or st (JArr []))) = Inr st'"
    and t': "t' = JObj (obj_set (own_props e) ''subtasks'' st')"
    unfolding ensureCustomFieldsOnTask_def rbind_Inr_iff by blast
  from e obtain cf where
    eo: "e = JObj (obj_set (own_props t) ''customFields'' (js_or cf (JObj [])))"
    unfolding ensureCustomFields_def rbind_Inr_iff by blast
  have arr: "\<exists>ss. st' = JArr ss \<and> map_result ensureCustomFields ss = Inr ss"
  proof (cases "truthy st")
    case True
    with st' obtain xs ss where "st = JArr xs" "map_result ensureCustomFields xs = Inr ss"
      "st' = JArr ss"
      by (auto simp: js_map_def rbind_Inr_iff split: jsval.splits)
    moreover have "map_result ensureCustomFields ss = Inr ss"
      by (rule map_result_fixed [where f = ensureCustomFields and xs = xs])
        (fact, rule ensureCustomFields_fixed)
    ultimately show ?thesis by simp
  next
    case False
    with st' have "st' = JArr []" by (simp add: js_or_def)
    then show ?thesis by simp
  qed
  then obtain ss where ss: "st' = JArr ss" "map_result ensureCustomFields ss = Inr ss"
    by blast
  have 1: "ensureCustomFields t' = Inr t'"
    by (simp add: t' eo ensureCustomFields_def js_or_def obj_set_same_value)
  have 2: "get_prop t' ''subtasks'' = Inr (JArr ss)"
    by (simp add: t' ss)
  show ?thesis
    unfolding ensureCustomFieldsOnTask_def 1 2
    by (simp add: js_map_def ss) (simp add: t' ss obj_set_same_value)
qed

lemma ensureCustomFieldsOnTasks_fixed:
  assumes "ensureCustomFieldsOnTasks tasks = Inr r"
  shows "ensureCustomFieldsOnTasks r = Inr r"
proof -
  from assms obtain ts rs where "tasks = JArr ts" "r = JArr rs"
    "map_result ensureCustomFieldsOnTask ts = Inr rs"
    by (auto simp: ensureCustomFieldsOnTasks_def js_map_def rbind_Inr_iff split: jsval.splits)
  moreover from this have "map_result ensureCustomFieldsOnTask rs = Inr rs"
    by (intro map_result_fixed [where f = ensureCustomFieldsOnTask and xs = ts])
      (simp_all add: ensureCustomFieldsOnTask_fixed)
  ultimately show ?thesis
    by (simp add: ensureCustomFieldsOnTasks_def js_map_def)
qed

lemma is_obj_iff: "is_obj v \<longleftrightarrow> (\<exists>kvs. v = JObj kvs)"
  by (cases v) auto

lemma ensureCustomFields_obj_total:
  "is_obj v \<Longrightarrow> \<exists>w. ensureCustomFields v = Inr w"
  by (auto simp: is_obj_iff ensureCustomFields_def)

lemma wf_task_total:
  assumes "wf_task t"
  shows "\<exists>t'. ensureCustomFieldsOnTask t = Inr t'"
proof -
  from assms obtain kvs where t: "t = JObj kvs" by (auto simp: wf_task_def is_obj_iff)
  obtain st where st: "get_prop t ''subtasks'' = Inr st" by (simp add: t)
  then have p: "prop_of t ''subtasks'' = st" by (simp add: prop_of_def)
  have "\<exists>st'. (if truthy st then js_map ensureCustomFields st else Inr (js_or st (JArr []))) = Inr st'"
    (is "\<exists>st'. ?rhs = Inr st'")
  proof (cases "truthy st")
    case True
    with assms p obtain ss where ss: "st = JArr ss" "list_all is_obj ss"
      by (auto simp: wf_task_def split: jsval.splits)
    then have "\<exists>ys. map_result ensureCustomFields ss = Inr ys"
      by (intro map_result_total ensureCustomFields_obj_total) (simp add: list_all_iff)
    with True ss show ?thesis by (auto simp: js_map_def)
  next
    case False
    then show ?thesis by simp
  qed
  then obtain st' where st': "?rhs = Inr st'" by blast
  have e: "ensureCustomFields t =
      Inr (JObj (obj_set kvs ''customFields'' (js_or (prop_of t ''customFields'') (JObj []))))"
    by (simp add: t ensureCustomFields_def prop_of_def)
  show ?thesis
    unfolding ensureCustomFieldsOnTask_def e st rbind_Inr st' by simp
qed

lemma wf_tasks_total:
  assumes "wf_tasks tasks"
  shows "\<exists>ts rs. tasks = JArr ts \<and> ensureCustomFieldsOnTasks tasks = Inr (JArr rs)"
proof -
  from assms obtain ts where ts: "tasks = JArr ts" "list_all wf_task ts"
    by (auto simp: wf_tasks_def split: jsval.splits)
  then have "\<exists>rs. map_result ensureCustomFieldsOnTask ts = Inr rs"
    by (intro map_result_total wf_task_total) (simp add: list_all_iff)
  with ts show ?thesis
    by (auto simp: ensureCustomFieldsOnTasks_def js_map_def)
qed

text \<open>
  Claim C6 (idempotence). On every well-formed task collection
  \<open>ensureTasksBackwardCompatibility\<close> returns a collection, and applied to that
  collection it returns it again unchanged.
\<close>

theorem ensureTasksBackwardCompatibility_idempotent:
  assumes "wf_tasks tasks"
  shows "\<exists>r. ensureTasksBackwardCompatibility tasks = Inr r \<and>
             ensureTasksBackwardCompatibility r = Inr r"
  using wf_tasks_total [OF assms] ensureCustomFieldsOnTasks_fixed
  unfolding ensureTasksBackwardCompatibility_def by blast


theorem ensureTasksBackwardCompatibility_idempotent_witness:
  "wf_tasks legacy_tasks \<and>
   (\<exists>r. ensureTasksBackwardCompatibility legacy_tasks = Inr r \<and>
        ensureTasksBackwardCompatibility r = Inr r)"
proof -
  have h: "wf_tasks legacy_tasks"
    by (simp add: wf_tasks_def wf_task_def prop_of_def legacy_tasks_def legacy_task_def)
  show ?thesis
    using h ensureTasksBackwardCompatibility_idempotent [OF h] by simp
qed

subsection \<open>The legacy migration scenario\<close>

text \<open>
  Claim C1 (legacy migration scenario). The claim expects both subtasks of the scenario to
  come back with \<open>parentTaskId = 1\<close>. The function only normalises \<open>customFields\<close>:
  on the scenario's input it returns the task and both subtasks with
  \<open>customFields = {}\<close>, the first subtask still without \<open>parentTaskId\<close> and the second
  still with \<open>parentTaskId = 999\<close>.
\<close>

theorem ensureTasksBackwardCompatibility_legacy_scenario:
  "ensureTasksBackwardCompatibility legacy_tasks =
     Inr (JArr [JObj [(''id'', JNum 1), (''title'', JStr ''T1''),
       (''subtasks'', JArr [
          JObj [(''id'', JNum 1), (''title'', JStr ''S1''), (''customFields'', JObj [])],
          JObj [(''id'', JNum 2), (''title'', JStr ''S2''), (''parentTaskId'', JNum 999),
                (''customFields'', JObj [])]]),
       (''customFields'', JObj [])]])"
  by (simp add: ensureTasksBackwardCompatibility_def ensureCustomFieldsOnTasks_def
      ensureCustomFieldsOnTask_def ensureCustomFields_def js_map_def js_or_def
      legacy_tasks_def legacy_task_def)

subsection \<open>Normalisation of \<open>subtasks\<close>\<close>


lemma list_all2_nthD2: "list_all2 P xs ys \<Longrightarrow> i < length xs \<Longrightarrow> P (xs ! i) (ys ! i)"
  by (simp add: list_all2_conv_all_nth)

lemma ensureCustomFieldsOnTask_no_subtasks:
  assumes "is_obj t" "\<not> truthy (prop_of t ''subtasks'')"
    and "ensureCustomFieldsOnTask t = Inr t'"
  shows "prop_of t' ''subtasks'' = JArr []"
proof -
  from assms(1) obtain kvs where t: "t = JObj kvs" by (auto simp: is_obj_iff)
  have st: "get_prop t ''subtasks'' = Inr (prop_of t ''subtasks'')"
    by (simp add: t prop_of_def)
  have e: "ensureCustomFields t =
      Inr (JObj (obj_set kvs ''customFields'' (js_or (prop_of t ''customFields'') (JObj []))))"
    by (simp add: t ensureCustomFields_def prop_of_def)
  from assms(3) have "t' = JObj (obj_set
      (obj_set kvs ''customFields'' (js_or (prop_of t ''customFields'') (JObj [])))
      ''subtasks'' (JArr []))"
    unfolding ensureCustomFieldsOnTask_def e st rbind_Inr using assms(2)
    by (simp add: js_or_def)
  then show ?thesis by (simp add: prop_of_def)
qed

text \<open>
  Claim C7, as amended. In the result of \<open>ensureCustomFieldsOnTasks\<close> on a well-formed
  collection, a task whose \<open>subtasks\<close> property is absent and a task whose \<open>subtasks\<close>
  is \<open>null\<close> both carry \<open>subtasks = []\<close>.
\<close>

theorem absent_or_null_subtasks_become_empty:
  assumes "wf_tasks (JArr ts)" and "i < length ts"
    and "prop_of (ts ! i) ''subtasks'' = JUndefined \<or> prop_of (ts ! i) ''subtasks'' = JNull"
  shows "\<exists>rs. ensureCustomFieldsOnTasks (JArr ts) = Inr (JArr rs) \<and> length rs = length ts \<and>
           prop_of (rs ! i) ''subtasks'' = JArr []"
proof -
  from wf_tasks_total [OF assms(1)] obtain rs where
    rs: "ensureCustomFieldsOnTasks (JArr ts) = Inr (JArr rs)" by blast
  then have all2: "list_all2 (\<lambda>x y. ensureCustomFieldsOnTask x = Inr y) ts rs"
    by (simp add: ensureCustomFieldsOnTasks_def js_map_def rbind_Inr_iff map_result_Inr_iff)
  then have len: "length rs = length ts" by (simp add: list_all2_lengthD)
  from all2 assms(2) have step: "ensureCustomFieldsOnTask (ts ! i) = Inr (rs ! i)"
    by (rule list_all2_nthD2)
  from assms(1,2) have "wf_task (ts ! i)" by (simp add: wf_tasks_def list_all_length)
  then have "is_obj (ts ! i)" by (simp add: wf_task_def)
  moreover from assms(3) have "\<not> truthy (prop_of (ts ! i) ''subtasks'')" by auto
  ultimately have "prop_of (rs ! i) ''subtasks'' = JArr []"
    using step by (rule ensureCustomFieldsOnTask_no_subtasks)
  with rs len show ?thesis by blast
qed

theorem absent_or_null_subtasks_become_empty_witness:
  "\<exists>rs. ensureCustomFieldsOnTasks (JArr tasks_without_subtasks) = Inr (JArr rs) \<and>
      length rs = length tasks_without_subtasks \<and> prop_of (rs ! 0) ''subtasks'' = JArr []"
proof -
  have h1: "wf_tasks (JArr tasks_without_subtasks)"
    by (simp add: tasks_without_subtasks_def wf_tasks_def wf_task_def prop_of_def)
  have h2: "0 < length tasks_without_subtasks"
    by (simp add: tasks_without_subtasks_def)
  have h3: "prop_of (tasks_without_subtasks ! 0) ''subtasks'' = JUndefined \<or>
            prop_of (tasks_without_subtasks ! 0) ''subtasks'' = JNull"
    by (simp add: tasks_without_subtasks_def prop_of_def)
  show ?thesis
    by (rule absent_or_null_subtasks_become_empty [OF h1 h2 h3])
qed

text \<open>The claim as stated (an absent \<open>subtasks\<close> stays absent) fails on the task
  \<open>{id: 1}\<close>: the result carries \<open>subtasks: []\<close>.\<close>

theorem absent_subtasks_counterexample:
  "ensureCustomFieldsOnTasks (JArr [JObj [(''id'', JNum 1)]]) =
     Inr (JArr [JObj [(''id'', JNum 1), (''customFields'', JObj []), (''subtasks'', JArr [])]])"
  by (simp add: ensureCustomFieldsOnTasks_def ensureCustomFieldsOnTask_def
      ensureCustomFields_def js_map_def js_or_def)

subsection \<open>The parent-id pass\<close>

lemma strict_eq_imp_eq: "strict_eq a b \<Longrightarrow> a = b"
  by (induction a b rule: strict_eq.induct) auto

lemma get_prop_not_nullish: "\<not> nullish v \<Longrightarrow> get_prop v k = Inr (prop_of v k)"
  by (cases v) (simp_all add: nullish_def prop_of_def)

lemma prop_of_obj_set_same [simp]: "prop_of (JObj (obj_set kvs k v)) k = v"
  by (simp add: prop_of_def)

lemma prop_of_obj_set_other [simp]:
  "k' \<noteq> k \<Longrightarrow> prop_of (JObj (obj_set kvs k v)) k' = prop_of (JObj kvs) k'"
  by (simp add: prop_of_def)

lemma drop_prop_own [simp]: "drop_prop k (JObj (own_props v)) = drop_prop k v"
  by (simp add: drop_prop_def)

lemma drop_prop_obj_set_obj [simp]:
  "drop_prop k (JObj (obj_set kvs k x)) = drop_prop k (JObj kvs)"
  by (simp add: drop_prop_def filter_obj_set)

text \<open>What the inner callback returns for an entry that is neither null nor undefined.\<close>

lemma validateSubtask_value:
  assumes "\<not> nullish task" "\<not> nullish s"
  shows "validateSubtask task s =
     Inr (if truthy (prop_of s ''parentTaskId'') \<and>
             strict_eq (prop_of s ''parentTaskId'') (prop_of task ''id'')
          then s
          else JObj (obj_set (own_props s) ''parentTaskId'' (prop_of task ''id'')))"
  using assms by (simp add: validateSubtask_def get_prop_not_nullish)

lemma validateSubtask_parent:
  assumes "validateSubtask task s = Inr s'" "\<not> nullish task" "\<not> nullish s"
  shows "prop_of s' ''parentTaskId'' = prop_of task ''id''"
  using assms by (auto simp: validateSubtask_value dest: strict_eq_imp_eq split: if_splits)

lemma validateSubtask_others:
  assumes "validateSubtask task s = Inr s'" "\<not> nullish task" "\<not> nullish s"
  shows "drop_prop ''parentTaskId'' s' = drop_prop ''parentTaskId'' s"
  using assms by (auto simp: validateSubtask_value split: if_splits)

lemma is_obj_not_nullish: "is_obj v \<Longrightarrow> \<not> nullish v"
  by (cases v) (simp_all add: nullish_def)

lemma subtask_entries_obj_set [simp]:
  "subtask_entries (JObj (obj_set kvs ''subtasks'' (JArr ss))) = ss"
  by (simp add: subtask_entries_def)

text \<open>What the outer callback returns for a task object whose subtask entries are neither
  null nor undefined.\<close>

lemma validateTask_value:
  assumes "is_obj task" "list_all (\<lambda>s. \<not> nullish s) (subtask_entries task)"
  shows "\<exists>t'. validateTask task = Inr t' \<and>
           drop_prop ''subtasks'' t' = drop_prop ''subtasks'' task \<and>
           prop_of t' ''id'' = prop_of task ''id'' \<and>
           list_all2 (\<lambda>s s'. validateSubtask task s = Inr s')
             (subtask_entries task) (subtask_entries t')"
proof -
  have nn: "\<not> nullish task" using assms(1) by (rule is_obj_not_nullish)
  from assms(1) obtain kvs where task: "task = JObj kvs" by (auto simp: is_obj_iff)
  let ?st = "prop_of task ''subtasks''"
  have st: "get_prop task ''subtasks'' = Inr ?st" using nn by (rule get_prop_not_nullish)
  show ?thesis
  proof (cases "\<not> truthy ?st \<or> \<not> is_array ?st \<or> ?st = JArr []")
    case True
    then have v: "validateTask task = Inr task"
      unfolding validateTask_def st rbind_Inr by simp
    from True have "subtask_entries task = []"
      by (cases ?st) (auto simp: subtask_entries_def)
    with v show ?thesis by simp
  next
    case False
    then obtain ss where ss: "?st = JArr ss" by (cases ?st) auto
    then have ent: "subtask_entries task = ss" by (simp add: subtask_entries_def)
    have "\<exists>ss'. map_result (validateSubtask task) ss = Inr ss'"
    proof (rule map_result_total)
      fix s assume "s \<in> set ss"
      with assms(2) ent have "\<not> nullish s" by (simp add: list_all_iff)
      with nn show "\<exists>y. validateSubtask task s = Inr y"
        by (simp add: validateSubtask_value)
    qed
    then obtain ss' where ss': "map_result (validateSubtask task) ss = Inr ss'" by blast
    have v: "validateTask task = Inr (JObj (obj_set (own_props task) ''subtasks'' (JArr ss')))"
      unfolding validateTask_def st rbind_Inr using False
      by (simp add: ss js_map_def ss')
    have "list_all2 (\<lambda>s s'. validateSubtask task s = Inr s') ss ss'"
      using ss' by (simp add: map_result_Inr_iff)
    with v ent show ?thesis by (simp add: task)
  qed
qed

lemma list_all2_map_eq: "list_all2 (\<lambda>x y. f y = f x) xs ys \<Longrightarrow> map f ys = map f xs"
  by (induction rule: list_all2_induct) auto

lemma list_all2_set2: "list_all2 P xs ys \<Longrightarrow> y \<in> set ys \<Longrightarrow> \<exists>x\<in>set xs. P x y"
  by (induction rule: list_all2_induct) auto

lemma validateTask_props:
  assumes ok: "entries_ok t" and v: "validateTask t = Inr t'"
  shows "drop_prop ''subtasks'' t' = drop_prop ''subtasks'' t"
    and "\<forall>s'\<in>set (subtask_entries t'). prop_of s' ''parentTaskId'' = prop_of t' ''id''"
    and "map (drop_prop ''parentTaskId'') (subtask_entries t') =
         map (drop_prop ''parentTaskId'') (subtask_entries t)"
    and "list_all2 (\<lambda>s s'. s' =
           (if truthy (prop_of s ''parentTaskId'') \<and>
               strict_eq (prop_of s ''parentTaskId'') (prop_of t ''id'')
            then s
            else JObj (obj_set (own_props s) ''parentTaskId'' (prop_of t ''id''))))
          (subtask_entries t) (subtask_entries t')"
proof -
  from ok have obj: "is_obj t" and ents: "list_all (\<lambda>s. \<not> nullish s) (subtask_entries t)"
    by (simp_all add: entries_ok_def)
  have nn: "\<not> nullish t" using obj by (rule is_obj_not_nullish)
  from validateTask_value [OF obj ents] v
  have d: "drop_prop ''subtasks'' t' = drop_prop ''subtasks'' t"
    and i: "prop_of t' ''id'' = prop_of t ''id''"
    and l0: "list_all2 (\<lambda>s s'. validateSubtask t s = Inr s')
             (subtask_entries t) (subtask_entries t')"
    by auto
  from ents have ents': "\<And>s. s \<in> set (subtask_entries t) \<Longrightarrow> \<not> nullish s"
    by (simp add: list_all_iff)
  from l0 ents
  have l: "list_all2 (\<lambda>s s'. \<not> nullish s \<and> validateSubtask t s = Inr s')
             (subtask_entries t) (subtask_entries t')"
    by (simp add: list_all2_conv_all_nth list_all_length)
  show "drop_prop ''subtasks'' t' = drop_prop ''subtasks'' t" by (rule d)
  show "\<forall>s'\<in>set (subtask_entries t'). prop_of s' ''parentTaskId'' = prop_of t' ''id''"
  proof
    fix s' assume "s' \<in> set (subtask_entries t')"
    with l0 obtain s where "s \<in> set (subtask_entries t)" "validateSubtask t s = Inr s'"
      by (blast dest: list_all2_set2)
    then show "prop_of s' ''parentTaskId'' = prop_of t' ''id''"
      using validateSubtask_parent [of t s s'] nn ents' i by simp
  qed
  have "list_all2 (\<lambda>s s'. drop_prop ''parentTaskId'' s' = drop_prop ''parentTaskId'' s)
          (subtask_entries t) (subtask_entries t')"
  proof (rule list_all2_mono [OF l])
    fix s s' assume "\<not> nullish s \<and> validateSubtask t s = Inr s'"
    then show "drop_prop ''parentTaskId'' s' = drop_prop ''parentTaskId'' s"
      using validateSubtask_others [of t s s'] nn by simp
  qed
  then show "map (drop_prop ''parentTaskId'') (subtask_entries t') =
         map (drop_prop ''parentTaskId'') (subtask_entries t)"
    by (rule list_all2_map_eq)
  show "list_all2 (\<lambda>s s'. s' =
           (if truthy (prop_of s ''parentTaskId'') \<and>
               strict_eq (prop_of s ''parentTaskId'') (prop_of t ''id'')
            then s
            else JObj (obj_set (own_props s) ''parentTaskId'' (prop_of t ''id''))))
          (subtask_entries t) (subtask_entries t')"
  proof (rule list_all2_mono [OF l])
    fix s s' assume "\<not> nullish s \<and> validateSubtask t s = Inr s'"
    then show "s' =
           (if truthy (prop_of s ''parentTaskId'') \<and>
               strict_eq (prop_of s ''parentTaskId'') (prop_of t ''id'')
            then s
            else JObj (obj_set (own_props s) ''parentTaskId'' (prop_of t ''id'')))"
      using validateSubtask_value [of t s] nn by simp
  qed
qed

lemma ensureSubtaskParentIds_total:
  assumes "list_all entries_ok ts"
  shows "\<exists>rs. ensureSubtaskParentIds (JArr ts) = Inr (JArr rs) \<and>
           list_all2 (\<lambda>t t'. entries_ok t \<and> validateTask t = Inr t') ts rs"
proof -
  have "\<exists>rs. map_result validateTask ts = Inr rs"
  proof (rule map_result_total)
    fix t assume "t \<in> set ts"
    with assms have "entries_ok t" by (simp add: list_all_iff)
    then show "\<exists>y. validateTask t = Inr y"
      using validateTask_value [of t] by (auto simp: entries_ok_def)
  qed
  then obtain rs where rs: "map_result validateTask ts = Inr rs" by blast
  then have "list_all2 (\<lambda>t t'. validateTask t = Inr t') ts rs"
    by (simp add: map_result_Inr_iff)
  then have "list_all2 (\<lambda>t t'. entries_ok t \<and> validateTask t = Inr t') ts rs"
    using assms by (simp add: list_all2_conv_all_nth list_all_length)
  with rs show ?thesis
    by (simp add: ensureSubtaskParentIds_def js_map_def)
qed

text \<open>
  Claim C5 (parent-id convergence and order). On every array of task objects whose
  \<open>subtasks\<close> arrays hold objects, \<open>ensureSubtaskParentIds\<close> returns an array in which
  every subtask of every task has the \<open>parentTaskId\<close> of that task's \<open>id\<close>; position by
  position, the tasks of the result have the properties of the input tasks other than
  \<open>subtasks\<close>, and their subtasks the properties of the input subtasks other than
  \<open>parentTaskId\<close>, so neither tasks nor subtasks are reordered, dropped or added. (When
  \<open>parentTaskId\<close> is rewritten it holds the very value of the task's \<open>id\<close>, so the two
  are identical, which is what \<open>===\<close> asks.)
\<close>

theorem parent_id_convergence:
  assumes "list_all (\<lambda>t. is_obj t \<and> list_all is_obj (subtask_entries t)) ts"
  shows "\<exists>rs. ensureSubtaskParentIds (JArr ts) = Inr (JArr rs) \<and>
     (\<forall>t'\<in>set rs. \<forall>s'\<in>set (subtask_entries t').
         prop_of s' ''parentTaskId'' = prop_of t' ''id'') \<and>
     map (drop_prop ''subtasks'') rs = map (drop_prop ''subtasks'') ts \<and>
     map (\<lambda>t. map (drop_prop ''parentTaskId'') (subtask_entries t)) rs =
     map (\<lambda>t. map (drop_prop ''parentTaskId'') (subtask_entries t)) ts"
proof -
  from assms have "list_all entries_ok ts"
    by (auto simp: list_all_iff entries_ok_def is_obj_not_nullish)
  from ensureSubtaskParentIds_total [OF this] obtain rs
    where rs: "ensureSubtaskParentIds (JArr ts) = Inr (JArr rs)"
      and l: "list_all2 (\<lambda>t t'. entries_ok t \<and> validateTask t = Inr t') ts rs"
    by blast
  have 1: "\<forall>t'\<in>set rs. \<forall>s'\<in>set (subtask_entries t').
         prop_of s' ''parentTaskId'' = prop_of t' ''id''"
  proof
    fix t' assume "t' \<in> set rs"
    with l obtain t where "entries_ok t" "validateTask t = Inr t'"
      by (blast dest: list_all2_set2)
    then show "\<forall>s'\<in>set (subtask_entries t').
         prop_of s' ''parentTaskId'' = prop_of t' ''id''"
      by (rule validateTask_props(2))
  qed
  have 2: "map (drop_prop ''subtasks'') rs = map (drop_prop ''subtasks'') ts"
  proof (rule list_all2_map_eq, rule list_all2_mono [OF l])
    fix t t' assume "entries_ok t \<and> validateTask t = Inr t'"
    then show "drop_prop ''subtasks'' t' = drop_prop ''subtasks'' t"
      using validateTask_props(1) [of t t'] by simp
  qed
  have 3: "map (\<lambda>t. map (drop_prop ''parentTaskId'') (subtask_entries t)) rs =
     map (\<lambda>t. map (drop_prop ''parentTaskId'') (subtask_entries t)) ts"
  proof (rule list_all2_map_eq, rule list_all2_mono [OF l])
    fix t t' assume "entries_ok t \<and> validateTask t = Inr t'"
    then show "map (drop_prop ''parentTaskId'') (subtask_entries t') =
               map (drop_prop ''parentTaskId'') (subtask_entries t)"
      using validateTask_props(3) [of t t'] by simp
  qed
  from rs 1 2 3 show ?thesis by blast
qed


theorem parent_id_convergence_witness:
  "list_all (\<lambda>t. is_obj t \<and> list_all is_obj (subtask_entries t)) [legacy_task] \<and>
   (\<exists>rs. ensureSubtaskParentIds (JArr [legacy_task]) = Inr (JArr rs) \<and>
     (\<forall>t'\<in>set rs. \<forall>s'\<in>set (subtask_entries t').
         prop_of s' ''parentTaskId'' = prop_of t' ''id'') \<and>
     map (drop_prop ''subtasks'') rs = map (drop_prop ''subtasks'') [legacy_task] \<and>
     map (\<lambda>t. map (drop_prop ''parentTaskId'') (subtask_entries t)) rs =
     map (\<lambda>t. map (drop_prop ''parentTaskId'') (subtask_entries t)) [legacy_task])"
proof -
  have h: "list_all (\<lambda>t. is_obj t \<and> list_all is_obj (subtask_entries t)) [legacy_task]"
    by (simp add: legacy_task_def subtask_entries_def prop_of_def)
  show ?thesis
    using h parent_id_convergence [OF h] by simp
qed


text \<open>On the legacy migration scenario the pass sets both \<open>parentTaskId\<close> to 1.\<close>

lemma ensureSubtaskParentIds_legacy:
  "ensureSubtaskParentIds legacy_tasks =
     Inr (JArr [JObj [(''id'', JNum 1), (''title'', JStr ''T1''),
       (''subtasks'', JArr [
          JObj [(''id'', JNum 1), (''title'', JStr ''S1''), (''parentTaskId'', JNum 1)],
          JObj [(''id'', JNum 2), (''title'', JStr ''S2''), (''parentTaskId'', JNum 1)]])]])"
  by (simp add: legacy_tasks_def legacy_task_def ensureSubtaskParentIds_def validateTask_def
      validateSubtask_def js_map_def)

text \<open>
  Claim C3, as amended. On every array of task objects whose subtask entries are neither
  \<open>null\<close> nor \<open>undefined\<close>, whatever else is malformed about them (a non-object, an
  object without \<open>id\<close> or \<open>title\<close>), \<open>ensureSubtaskParentIds\<close> returns, and every
  entry stays at its position: an entry whose \<open>parentTaskId\<close> is truthy and equal to the
  task's \<open>id\<close> is returned as it is, and every other entry, with or without \<open>id\<close>, is
  returned as a copy of its own properties with \<open>parentTaskId\<close> set to the task's \<open>id\<close>.
\<close>

theorem malformed_entries_corrected_in_place:
  assumes "list_all (\<lambda>t. is_obj t \<and> list_all (\<lambda>s. \<not> nullish s) (subtask_entries t)) ts"
  shows "\<exists>rs. ensureSubtaskParentIds (JArr ts) = Inr (JArr rs) \<and>
     list_all2 (\<lambda>t t'. list_all2 (\<lambda>s s'. s' =
           (if truthy (prop_of s ''parentTaskId'') \<and>
               strict_eq (prop_of s ''parentTaskId'') (prop_of t ''id'')
            then s
            else JObj (obj_set (own_props s) ''parentTaskId'' (prop_of t ''id''))))
          (subtask_entries t) (subtask_entries t')) ts rs"
proof -
  from assms have "list_all entries_ok ts"
    by (simp add: list_all_iff entries_ok_def)
  from ensureSubtaskParentIds_total [OF this] obtain rs
    where rs: "ensureSubtaskParentIds (JArr ts) = Inr (JArr rs)"
      and l: "list_all2 (\<lambda>t t'. entries_ok t \<and> validateTask t = Inr t') ts rs"
    by blast
  have "list_all2 (\<lambda>t t'. list_all2 (\<lambda>s s'. s' =
           (if truthy (prop_of s ''parentTaskId'') \<and>
               strict_eq (prop_of s ''parentTaskId'') (prop_of t ''id'')
            then s
            else JObj (obj_set (own_props s) ''parentTaskId'' (prop_of t ''id''))))
          (subtask_entries t) (subtask_entries t')) ts rs"
  proof (rule list_all2_mono [OF l])
    fix t t' assume "entries_ok t \<and> validateTask t = Inr t'"
    then show "list_all2 (\<lambda>s s'. s' =
           (if truthy (prop_of s ''parentTaskId'') \<and>
               strict_eq (prop_of s ''parentTaskId'') (prop_of t ''id'')
            then s
            else JObj (obj_set (own_props s) ''parentTaskId'' (prop_of t ''id''))))
          (subtask_entries t) (subtask_entries t')"
      using validateTask_props(4) [of t t'] by simp
  qed
  with rs show ?thesis by blast
qed

theorem malformed_entries_corrected_in_place_witness:
  "list_all (\<lambda>t. is_obj t \<and> list_all (\<lambda>s. \<not> nullish s) (subtask_entries t))
     tasks_malformed_entries \<and>
   (\<exists>rs. ensureSubtaskParentIds (JArr tasks_malformed_entries) = Inr (JArr rs) \<and>
     list_all2 (\<lambda>t t'. list_all2 (\<lambda>s s'. s' =
           (if truthy (prop_of s ''parentTaskId'') \<and>
               strict_eq (prop_of s ''parentTaskId'') (prop_of t ''id'')
            then s
            else JObj (obj_set (own_props s) ''parentTaskId'' (prop_of t ''id''))))
          (subtask_entries t) (subtask_entries t')) tasks_malformed_entries rs)"
proof -
  have h: "list_all (\<lambda>t. is_obj t \<and> list_all (\<lambda>s. \<not> nullish s) (subtask_entries t))
     tasks_malformed_entries"
    by (simp add: tasks_malformed_entries_def subtask_entries_def prop_of_def nullish_def)
  show ?thesis
    using h malformed_entries_corrected_in_place [OF h] by simp
qed


text \<open>The claim as stated (malformed entries are left unmodified) fails on a task with
  the entries \<open>{title: "S"}\<close> and \<open>5\<close>: the first comes back with \<open>parentTaskId: 1\<close>
  added, the second as the object \<open>{parentTaskId: 1}\<close>.\<close>

theorem malformed_entries_counterexample:
  "ensureSubtaskParentIds (JArr tasks_malformed_entries) =
     Inr (JArr [JObj [(''id'', JNum 1), (''subtasks'',
       JArr [JObj [(''title'', JStr ''S''), (''parentTaskId'', JNum 1)],
             JObj [(''parentTaskId'', JNum 1)]])]])"
  by (simp add: tasks_malformed_entries_def ensureSubtaskParentIds_def validateTask_def
      validateSubtask_def js_map_def)

text \<open>An entry that is \<open>null\<close> ends the pass with a \<open>TypeError\<close>.\<close>

lemma null_entry_throws:
  "ensureSubtaskParentIds tasks_null_entry = Inl TypeError"
  by (simp add: tasks_null_entry_def ensureSubtaskParentIds_def validateTask_def
      validateSubtask_def js_map_def)

subsection \<open>Query filters\<close>

lemma js_error_eq [simp]: "(e :: js_error) = TypeError"
  by (cases e) simp

lemma filter_result_throws:
  "\<exists>x\<in>set xs. p x = Inl TypeError \<Longrightarrow> filter_result p xs = Inl TypeError"
proof (induction xs)
  case Nil
  then show ?case by simp
next
  case (Cons x xs)
  show ?case
  proof (cases "p x")
    case (Inl e)
    then show ?thesis by simp
  next
    case (Inr b)
    with Cons.prems have "\<exists>x\<in>set xs. p x = Inl TypeError" by auto
    then have "filter_result p xs = Inl TypeError" by (rule Cons.IH)
    with Inr show ?thesis by simp
  qed
qed

lemma filter_result_total:
  "(\<And>x. x \<in> set xs \<Longrightarrow> p x = Inr (q x)) \<Longrightarrow> filter_result p xs = Inr (filter q xs)"
  by (induction xs) simp_all

lemma js_includes_no_method:
  "\<not> is_string v \<Longrightarrow> \<not> is_array v \<Longrightarrow> js_includes v x = Inl TypeError"
  by (cases v) simp_all

lemma translate_single_core:
  "key \<in> set CORE_FIELDS \<Longrightarrow>
   translateQueryParameters [(key, v)] = \<lparr>coreFields = [(key, v)], customFields = []\<rparr>"
  by (auto simp: translateQueryParameters_def obj_assign_def CORE_FIELDS_def)

lemma translate_single_custom:
  "key \<notin> set CORE_FIELDS \<Longrightarrow> key \<noteq> ''__proto__'' \<Longrightarrow>
   translateQueryParameters [(key, v)] = \<lparr>coreFields = [], customFields = [(key, v)]\<rparr>"
  by (simp add: translateQueryParameters_def obj_assign_def)

lemma status_core [simp]: "''status'' \<in> set CORE_FIELDS"
  by (simp add: CORE_FIELDS_def)

lemma core_match_status_throws:
  "\<not> is_string v \<Longrightarrow> \<not> is_array v \<Longrightarrow> core_match ''status'' v task = Inl TypeError"
  by (simp add: core_match_def js_includes_no_method)

lemma custom_match_throws:
  assumes "\<not> is_string v" "\<not> is_array v"
    and "truthy (prop_of (prop_of t ''customFields'') field)"
  shows "custom_match field v t = Inl TypeError"
proof -
  let ?cf = "prop_of t ''customFields''"
  from assms(3) have cf: "truthy ?cf"
    by (cases ?cf) (auto simp: prop_of_def split: if_splits)
  then have t: "get_prop t ''customFields'' = Inr ?cf"
    by (cases t) (auto simp: prop_of_def)
  from cf have x: "get_prop ?cf field = Inr (prop_of ?cf field)"
    by (cases ?cf) (auto simp: prop_of_def)
  show ?thesis
    unfolding custom_match_def t x rbind_Inr
    using cf assms by (simp add: js_includes_no_method)
qed

text \<open>
  Claim C10 (\<open>filterTasks\<close> throws on filter values that are not strings). Let \<open>v\<close> be
  neither a string nor an array (\<open>null\<close>, \<open>undefined\<close>, a boolean, a number, an object).
  \<open>translateQueryParameters\<close> passes \<open>v\<close> through unmodified, as the core filter
  \<open>{status: v}\<close> and as a custom-field filter \<open>{field: v}\<close>; \<open>filterTasks\<close> then throws a
  \<open>TypeError\<close> on every non-empty task list for the core filter, and for the custom-field
  filter on every task list that holds a task with a truthy value for that field.
\<close>

theorem filterTasks_throws_on_non_string_value:
  assumes "\<not> is_string v" and "\<not> is_array v"
  shows "translateQueryParameters [(''status'', v)] =
           \<lparr>coreFields = [(''status'', v)], customFields = []\<rparr> \<and>
         (ts \<noteq> [] \<longrightarrow>
            filterTasks (JArr ts) (translateQueryParameters [(''status'', v)]) = Inl TypeError) \<and>
         (field \<notin> set CORE_FIELDS \<and> field \<noteq> ''__proto__'' \<longrightarrow>
            translateQueryParameters [(field, v)] =
              \<lparr>coreFields = [], customFields = [(field, v)]\<rparr> \<and>
            ((\<exists>t\<in>set ts. truthy (prop_of (prop_of t ''customFields'') field)) \<longrightarrow>
               filterTasks (JArr ts) (translateQueryParameters [(field, v)]) = Inl TypeError))"
proof (intro conjI impI)
  show "translateQueryParameters [(''status'', v)] =
           \<lparr>coreFields = [(''status'', v)], customFields = []\<rparr>"
    by (simp add: translate_single_core)
next
  assume "ts \<noteq> []"
  then have "\<exists>t\<in>set ts. core_match ''status'' v t = Inl TypeError"
    using assms by (cases ts) (auto simp: core_match_status_throws)
  then have "filter_result (core_match ''status'' v) ts = Inl TypeError"
    by (rule filter_result_throws)
  then show "filterTasks (JArr ts) (translateQueryParameters [(''status'', v)]) = Inl TypeError"
    by (simp add: filterTasks_def translate_single_core)
next
  assume "field \<notin> set CORE_FIELDS \<and> field \<noteq> ''__proto__''"
  then show "translateQueryParameters [(field, v)] =
              \<lparr>coreFields = [], customFields = [(field, v)]\<rparr>"
    by (simp add: translate_single_custom)
next
  assume f: "field \<notin> set CORE_FIELDS \<and> field \<noteq> ''__proto__''"
    and "\<exists>t\<in>set ts. truthy (prop_of (prop_of t ''customFields'') field)"
  then have "\<exists>t\<in>set ts. custom_match field v t = Inl TypeError"
    using assms by (auto intro: custom_match_throws)
  then have "filter_result (custom_match field v) ts = Inl TypeError"
    by (rule filter_result_throws)
  with f show "filterTasks (JArr ts) (translateQueryParameters [(field, v)]) = Inl TypeError"
    by (simp add: filterTasks_def translate_single_custom)
qed

theorem filterTasks_throws_on_non_string_value_witness:
  "translateQueryParameters [(''status'', JNull)] =
      \<lparr>coreFields = [(''status'', JNull)], customFields = []\<rparr> \<and>
   filterTasks (JArr [task_epic]) (translateQueryParameters [(''status'', JNull)]) = Inl TypeError \<and>
   translateQueryParameters [(''epic'', JNull)] =
      \<lparr>coreFields = [], customFields = [(''epic'', JNull)]\<rparr> \<and>
   filterTasks (JArr [task_epic]) (translateQueryParameters [(''epic'', JNull)]) = Inl TypeError"
proof -
  have h1: "\<not> is_string JNull" and h2: "\<not> is_array JNull" by simp_all
  have h3: "[task_epic] \<noteq> []" by simp
  have h4: "''epic'' \<notin> set CORE_FIELDS \<and> ''epic'' \<noteq> ''__proto__''"
    by (simp add: CORE_FIELDS_def)
  have h5: "\<exists>t\<in>set [task_epic]. truthy (prop_of (prop_of t ''customFields'') ''epic'')"
    by (simp add: task_epic_def prop_of_def)
  show ?thesis
    using filterTasks_throws_on_non_string_value [OF h1 h2, of "[task_epic]" "''epic''"]
      h3 h4 h5 by blast
qed

lemma strict_eq_JStr [simp]: "strict_eq (JStr a) x \<longleftrightarrow> x = JStr a"
  by (cases x) auto

lemma strict_eq_JStr2 [simp]: "strict_eq x (JStr a) \<longleftrightarrow> x = JStr a"
  by (cases x) auto

lemma starts_with_Nil [simp]: "starts_with s [] = True"
  by (cases s) simp_all

lemma str_includes_single: "str_includes s [c] \<longleftrightarrow> c \<in> set s"
  by (induction s) auto

lemma filter_result_mem:
  "filter_result p xs = Inr ys \<Longrightarrow> x \<in> set xs \<Longrightarrow> p x = Inr True \<Longrightarrow> x \<in> set ys"
proof (induction xs arbitrary: ys)
  case Nil
  then show ?case by simp
next
  case (Cons a xs)
  from Cons.prems(1) obtain b zs where b: "p a = Inr b" and zs: "filter_result p xs = Inr zs"
    and ys: "ys = (if b then a # zs else zs)"
    by (auto simp: rbind_Inr_iff)
  show ?case
  proof (cases "x = a")
    case True
    with b Cons.prems(3) ys show ?thesis by simp
  next
    case False
    with Cons.prems(2) have "x \<in> set xs" by simp
    with zs have "x \<in> set zs" using Cons.prems(3) by (rule Cons.IH)
    with ys show ?thesis by simp
  qed
qed

lemma rbind_apply_filters_Nil [simp]: "rbind m (apply_filters c []) = m"
  by (cases m) simp_all

lemma falsy_has_no_epic:
  "\<not> truthy cf \<Longrightarrow> prop_of cf ''epic'' = JUndefined"
  by (cases cf) (simp_all add: prop_of_def)

lemma custom_match_epic_comma:
  assumes "\<not> nullish t"
  shows "custom_match ''epic'' (JStr ''EPIC-1234,EPIC-5678'') t =
           Inr (epic_of t = JStr ''EPIC-1234'' \<or> epic_of t = JStr ''EPIC-5678'')"
proof -
  let ?cf = "prop_of t ''customFields''"
  have t: "get_prop t ''customFields'' = Inr ?cf"
    using assms by (rule get_prop_not_nullish)
  show ?thesis
  proof (cases "truthy ?cf")
    case False
    then have "epic_of t = JUndefined" by (simp add: epic_of_def falsy_has_no_epic)
    with False show ?thesis
      unfolding custom_match_def t rbind_Inr by simp
  next
    case True
    then have "\<not> nullish ?cf" by (auto simp: nullish_def)
    then have x: "get_prop ?cf ''epic'' = Inr (epic_of t)"
      unfolding epic_of_def by (rule get_prop_not_nullish)
    have parts: "trim ''EPIC-1234'' = ''EPIC-1234''" "trim ''EPIC-5678'' = ''EPIC-5678''"
      by (simp_all add: trim_def is_space_def)
    show ?thesis
      unfolding custom_match_def t x rbind_Inr using True
      by (auto simp: parts array_includes_def)
  qed
qed

lemma custom_match_epic_exact:
  assumes "epic_of t = JStr v" "v \<noteq> []" "CHR '','' \<notin> set v"
  shows "custom_match ''epic'' (JStr v) t = Inr True"
proof -
  let ?cf = "prop_of t ''customFields''"
  from assms(1,2) have tx: "truthy (prop_of ?cf ''epic'')" by (simp add: epic_of_def)
  then have cf: "truthy ?cf" using falsy_has_no_epic by fastforce
  then have t: "get_prop t ''customFields'' = Inr ?cf"
    by (cases t) (auto simp: prop_of_def)
  from cf have x: "get_prop ?cf ''epic'' = Inr (JStr v)"
    using assms(1) by (cases ?cf) (auto simp: prop_of_def epic_of_def)
  show ?thesis
    unfolding custom_match_def t x rbind_Inr
    using cf assms(2,3) by (simp add: str_includes_single)
qed

text \<open>
  Claim C4, as amended. On every list of tasks, none of them \<open>null\<close> or \<open>undefined\<close>, the
  filter \<open>{epic: "EPIC-1234,EPIC-5678"}\<close> returns exactly the tasks, in input order, whose
  \<open>customFields.epic\<close> is exactly \<open>"EPIC-1234"\<close> or exactly \<open>"EPIC-5678"\<close>. Wherever the two
  single-value filters return, each of these tasks is in one of their results; the
  converse is not claimed, since a single-value filter also matches by substring.
\<close>

theorem comma_filter_exact_values:
  assumes "list_all (\<lambda>t. \<not> nullish t) ts"
  shows "filterTasks (JArr ts) (translateQueryParameters [(''epic'', JStr ''EPIC-1234,EPIC-5678'')]) =
           Inr (filter (\<lambda>t. epic_of t = JStr ''EPIC-1234'' \<or> epic_of t = JStr ''EPIC-5678'') ts) \<and>
         (\<forall>r1 r2.
            filterTasks (JArr ts) (translateQueryParameters [(''epic'', JStr ''EPIC-1234'')]) = Inr r1 \<and>
            filterTasks (JArr ts) (translateQueryParameters [(''epic'', JStr ''EPIC-5678'')]) = Inr r2
            \<longrightarrow> set (filter (\<lambda>t. epic_of t = JStr ''EPIC-1234'' \<or> epic_of t = JStr ''EPIC-5678'') ts)
                  \<subseteq> set r1 \<union> set r2)"
proof (intro conjI allI impI)
  have epic: "''epic'' \<notin> set CORE_FIELDS" by (simp add: CORE_FIELDS_def)
  have "filter_result (custom_match ''epic'' (JStr ''EPIC-1234,EPIC-5678'')) ts =
          Inr (filter (\<lambda>t. epic_of t = JStr ''EPIC-1234'' \<or> epic_of t = JStr ''EPIC-5678'') ts)"
    using assms by (intro filter_result_total custom_match_epic_comma) (simp add: list_all_iff)
  then show "filterTasks (JArr ts) (translateQueryParameters [(''epic'', JStr ''EPIC-1234,EPIC-5678'')]) =
           Inr (filter (\<lambda>t. epic_of t = JStr ''EPIC-1234'' \<or> epic_of t = JStr ''EPIC-5678'') ts)"
    by (simp add: filterTasks_def translate_single_custom epic)
  fix r1 r2
  assume "filterTasks (JArr ts) (translateQueryParameters [(''epic'', JStr ''EPIC-1234'')]) = Inr r1 \<and>
          filterTasks (JArr ts) (translateQueryParameters [(''epic'', JStr ''EPIC-5678'')]) = Inr r2"
  then have r1: "filter_result (custom_match ''epic'' (JStr ''EPIC-1234'')) ts = Inr r1"
    and r2: "filter_result (custom_match ''epic'' (JStr ''EPIC-5678'')) ts = Inr r2"
    by (simp_all add: filterTasks_def translate_single_custom epic)
  show "set (filter (\<lambda>t. epic_of t = JStr ''EPIC-1234'' \<or> epic_of t = JStr ''EPIC-5678'') ts)
          \<subseteq> set r1 \<union> set r2"
  proof
    fix t assume "t \<in> set (filter (\<lambda>t. epic_of t = JStr ''EPIC-1234'' \<or> epic_of t = JStr ''EPIC-5678'') ts)"
    then have mem: "t \<in> set ts"
      and e: "epic_of t = JStr ''EPIC-1234'' \<or> epic_of t = JStr ''EPIC-5678''" by simp_all
    from e show "t \<in> set r1 \<union> set r2"
    proof
      assume "epic_of t = JStr ''EPIC-1234''"
      then have "custom_match ''epic'' (JStr ''EPIC-1234'') t = Inr True"
        by (rule custom_match_epic_exact) simp_all
      with r1 mem have "t \<in> set r1" by (rule filter_result_mem)
      then show ?thesis by simp
    next
      assume "epic_of t = JStr ''EPIC-5678''"
      then have "custom_match ''epic'' (JStr ''EPIC-5678'') t = Inr True"
        by (rule custom_match_epic_exact) simp_all
      with r2 mem have "t \<in> set r2" by (rule filter_result_mem)
      then show ?thesis by simp
    qed
  qed
qed

text \<open>The claim as stated (the comma filter returns the union of the single-value
  filters) fails on a task whose epic is \<open>"EPIC-12345"\<close>: the single-value filter
  \<open>"EPIC-1234"\<close> returns it, by substring, and the comma filter does not.\<close>

theorem comma_filter_counterexample:
  "filterTasks (JArr [task_epic])
     (translateQueryParameters [(''epic'', JStr ''EPIC-1234,EPIC-5678'')]) = Inr [] \<and>
   filterTasks (JArr [task_epic])
     (translateQueryParameters [(''epic'', JStr ''EPIC-1234'')]) = Inr [task_epic] \<and>
   filterTasks (JArr [task_epic])
     (translateQueryParameters [(''epic'', JStr ''EPIC-5678'')]) = Inr []"
  by (simp add: filterTasks_def translateQueryParameters_def obj_assign_def CORE_FIELDS_def
      custom_match_def task_epic_def array_includes_def trim_def is_space_def)

theorem comma_filter_exact_values_witness:
  "list_all (\<lambda>t. \<not> nullish t) [task_epic, task_epic_5678] \<and>
   filterTasks (JArr [task_epic, task_epic_5678])
     (translateQueryParameters [(''epic'', JStr ''EPIC-1234,EPIC-5678'')]) = Inr [task_epic_5678]"
proof -
  have h: "list_all (\<lambda>t. \<not> nullish t) [task_epic, task_epic_5678]"
    by (simp add: nullish_def task_epic_def task_epic_5678_def)
  have e: "epic_of task_epic = JStr ''EPIC-12345''" "epic_of task_epic_5678 = JStr ''EPIC-5678''"
    by (simp_all add: epic_of_def prop_of_def task_epic_def task_epic_5678_def)
  show ?thesis
    using h comma_filter_exact_values [OF h] by (simp add: e)
qed


subsection \<open>The status filter\<close>

text \<open>
  Claim C2 (the status filter is case-insensitive). The copy of \<open>filterTasks\<close> in
  \<^verbatim>\<open>scripts/modules/utils/queryTranslator.js\<close> compares the status as it is written:
  on a task with status \<open>"pending"\<close> the filters \<open>"PENDING"\<close> and \<open>"Pending, DONE"\<close> return
  nothing, and the filter \<open>"end"\<close> returns the task, by substring. The second copy returns
  the task for the first two filters and nothing for the third, as the claim says.
\<close>

theorem status_filter_case_sensitive_copy:
  "filterTasks (JArr [task_pending]) (translateQueryParameters [(''status'', JStr ''PENDING'')])
     = Inr [] \<and>
   filterTasks (JArr [task_pending]) (translateQueryParameters [(''status'', JStr ''Pending, DONE'')])
     = Inr [] \<and>
   filterTasks (JArr [task_pending]) (translateQueryParameters [(''status'', JStr ''end'')])
     = Inr [task_pending] \<and>
   filterTasks_ci (JArr [task_pending]) (translateQueryParameters [(''status'', JStr ''PENDING'')])
     = Inr [task_pending] \<and>
   filterTasks_ci (JArr [task_pending]) (translateQueryParameters [(''status'', JStr ''Pending, DONE'')])
     = Inr [task_pending] \<and>
   filterTasks_ci (JArr [task_pending]) (translateQueryParameters [(''status'', JStr ''end'')])
     = Inr []"
  by code_simp

text \<open>The second copy does what the claim says, on every list of tasks whose status is a
  string.\<close>

lemma core_match_ci_status:
  assumes "prop_of t ''status'' = JStr s"
  shows "core_match_ci ''status'' (JStr v) t = Inr (status_matches v s)"
proof -
  from assms have "\<not> nullish t" by (auto simp: nullish_def prop_of_def)
  then have t: "get_prop t ''status'' = Inr (JStr s)"
    using assms by (simp add: get_prop_not_nullish)
  show ?thesis
    unfolding core_match_ci_def
    by (simp add: t str_includes_single status_matches_def)
qed

lemma filterTasks_ci_status:
  assumes "list_all (\<lambda>t. is_string (prop_of t ''status'')) ts"
  shows "filterTasks_ci (JArr ts) (translateQueryParameters [(''status'', JStr v)]) =
           Inr (filter (\<lambda>t. status_matches v (to_string (prop_of t ''status''))) ts)"
proof -
  have "filter_result (core_match_ci ''status'' (JStr v)) ts =
          Inr (filter (\<lambda>t. status_matches v (to_string (prop_of t ''status''))) ts)"
  proof (rule filter_result_total)
    fix t assume "t \<in> set ts"
    with assms have "is_string (prop_of t ''status'')" by (simp add: list_all_iff)
    then obtain s where s: "prop_of t ''status'' = JStr s"
      by (cases "prop_of t ''status''") auto
    then show "core_match_ci ''status'' (JStr v) t =
        Inr (status_matches v (to_string (prop_of t ''status'')))"
      by (simp add: core_match_ci_status)
  qed
  then show ?thesis
    by (simp add: filterTasks_ci_def translate_single_core)
qed

subsection \<open>Search keys\<close>

lemma add_all_Nil [simp]: "add_all s [] = s"
  by (simp add: add_all_def)

lemma add_all_Cons [simp]: "add_all s (x # xs) = add_all (set_add s x) xs"
  by (simp add: add_all_def)

lemma add_all_append: "add_all s (a @ b) = add_all (add_all s a) b"
  by (simp add: add_all_def)

lemma set_add_not_Nil [simp]: "set_add s x \<noteq> []"
  by (auto simp: set_add_def)

lemma add_all_not_Nil: "s \<noteq> [] \<Longrightarrow> add_all s xs \<noteq> []"
  by (induction xs arbitrary: s) simp_all

lemma add_all_eq_Nil: "add_all s xs = [] \<longleftrightarrow> s = [] \<and> xs = []"
proof (cases xs)
  case Nil
  then show ?thesis by simp
next
  case (Cons x xs')
  then show ?thesis using add_all_not_Nil [of "set_add s x" xs'] by simp
qed

lemma add_all_distinct:
  "distinct xs \<Longrightarrow> set xs \<inter> set s = {} \<Longrightarrow> add_all s xs = s @ xs"
proof (induction xs arbitrary: s)
  case Nil
  show ?case by simp
next
  case (Cons x xs)
  from Cons.prems have "set_add s x = s @ [x]" by (simp add: set_add_def)
  moreover from Cons.prems have "add_all (s @ [x]) xs = (s @ [x]) @ xs"
    by (intro Cons.IH) auto
  ultimately show ?case by simp
qed

lemma add_custom_keys_value:
  "\<not> nullish item \<Longrightarrow> add_custom_keys item acc = Inr (add_all acc (keys_of item))"
  by (simp add: add_custom_keys_def get_prop_not_nullish keys_of_def)

lemma add_custom_keys_nullish:
  "nullish item \<Longrightarrow> add_custom_keys item acc = Inl TypeError"
  by (auto simp: add_custom_keys_def nullish_def)

lemma fold_add_custom_keys_value:
  "list_all (\<lambda>s. \<not> nullish s) ss \<Longrightarrow>
   fold_result add_custom_keys ss acc = Inr (add_all acc (concat (map keys_of ss)))"
  by (induction ss arbitrary: acc) (simp_all add: add_custom_keys_value add_all_append)

lemma fold_add_custom_keys_throws:
  "\<not> list_all (\<lambda>s. \<not> nullish s) ss \<Longrightarrow> fold_result add_custom_keys ss acc = Inl TypeError"
proof (induction ss arbitrary: acc)
  case Nil
  then show ?case by simp
next
  case (Cons s ss)
  show ?case
  proof (cases "nullish s")
    case True
    then show ?thesis by (simp add: add_custom_keys_nullish)
  next
    case False
    with Cons.prems have "\<not> list_all (\<lambda>s. \<not> nullish s) ss" by simp
    then show ?thesis using False by (simp add: add_custom_keys_value Cons.IH)
  qed
qed

lemma add_task_keys_value:
  assumes "scan_ok t"
  shows "add_task_keys t acc = Inr (add_all acc (task_keys t))"
proof -
  from assms have nn: "\<not> nullish t" by (simp add: scan_ok_def)
  let ?st = "prop_of t ''subtasks''"
  have st: "get_prop t ''subtasks'' = Inr ?st" using nn by (rule get_prop_not_nullish)
  show ?thesis
  proof (cases "truthy ?st")
    case True
    with assms obtain ss where ss: "?st = JArr ss" and ok: "list_all (\<lambda>s. \<not> nullish s) ss"
      by (cases ?st) (auto simp: scan_ok_def subtask_entries_def)
    then have ent: "subtask_entries t = ss" by (simp add: subtask_entries_def)
    show ?thesis
      unfolding add_task_keys_def add_custom_keys_value [OF nn] st rbind_Inr
      using True ok
      by (simp add: ss js_forEach_def fold_add_custom_keys_value task_keys_def ent add_all_append)
  next
    case False
    then have ent: "subtask_entries t = []"
      by (cases ?st) (auto simp: subtask_entries_def)
    show ?thesis
      unfolding add_task_keys_def add_custom_keys_value [OF nn] st rbind_Inr
      using False by (simp add: task_keys_def ent)
  qed
qed

lemma add_task_keys_throws:
  assumes "\<not> scan_ok t"
  shows "add_task_keys t acc = Inl TypeError"
proof (cases "nullish t")
  case True
  then show ?thesis by (simp add: add_task_keys_def add_custom_keys_nullish)
next
  case nn: False
  let ?st = "prop_of t ''subtasks''"
  have st: "get_prop t ''subtasks'' = Inr ?st" using nn by (rule get_prop_not_nullish)
  from assms nn have tr: "truthy ?st"
    and bad: "\<not> (is_array ?st \<and> list_all (\<lambda>s. \<not> nullish s) (subtask_entries t))"
    by (auto simp: scan_ok_def)
  have "js_forEach add_custom_keys ?st (add_all acc (keys_of t)) = Inl TypeError"
  proof (cases ?st)
    case (JArr ss)
    then have "subtask_entries t = ss" by (simp add: subtask_entries_def)
    with bad JArr have "\<not> list_all (\<lambda>s. \<not> nullish s) ss" by simp
    then show ?thesis by (simp add: JArr js_forEach_def fold_add_custom_keys_throws)
  qed (simp_all add: js_forEach_def)
  then show ?thesis
    unfolding add_task_keys_def add_custom_keys_value [OF nn] st rbind_Inr
    using tr by simp
qed

lemma fold_add_task_keys_value:
  "list_all scan_ok ts \<Longrightarrow>
   fold_result add_task_keys ts acc = Inr (add_all acc (concat (map task_keys ts)))"
  by (induction ts arbitrary: acc) (simp_all add: add_task_keys_value add_all_append)

lemma fold_add_task_keys_throws:
  "\<not> list_all scan_ok ts \<Longrightarrow> fold_result add_task_keys ts acc = Inl TypeError"
proof (induction ts arbitrary: acc)
  case Nil
  then show ?case by simp
next
  case (Cons t ts)
  show ?case
  proof (cases "scan_ok t")
    case True
    with Cons.prems have "\<not> list_all scan_ok ts" by simp
    then show ?thesis using True by (simp add: add_task_keys_value Cons.IH)
  next
    case False
    then show ?thesis by (simp add: add_task_keys_throws)
  qed
qed

lemma getCustomFieldNames_value:
  "getCustomFieldNames (JArr ts) =
     (if list_all scan_ok ts then Inr (add_all [] (concat (map task_keys ts)))
      else Inl TypeError)"
  by (simp add: getCustomFieldNames_def js_forEach_def fold_add_task_keys_value
      fold_add_task_keys_throws)

lemma concat_map_update:
  "(\<And>x. x \<in> set xs \<Longrightarrow> f x = []) \<Longrightarrow> i < length xs \<Longrightarrow>
   concat (map f (xs[i := y])) = f y"
proof (induction xs arbitrary: i)
  case Nil
  then show ?case by simp
next
  case (Cons x xs)
  show ?case
  proof (cases i)
    case 0
    with Cons.prems(1) show ?thesis by simp
  next
    case (Suc j)
    with Cons.prems show ?thesis by (simp add: Cons.IH)
  qed
qed

lemma list_all_update:
  "list_all P xs \<Longrightarrow> P y \<Longrightarrow> list_all P (xs[i := y])"
  by (induction xs arbitrary: i) (auto split: nat.splits)

lemma subtask_entries_obj_set_other [simp]:
  "k \<noteq> ''subtasks'' \<Longrightarrow>
   subtask_entries (JObj (obj_set kvs k v)) = subtask_entries (JObj kvs)"
  by (simp add: subtask_entries_def)

lemma generateSearchKeys_value:
  "list_all scan_ok ts \<Longrightarrow>
   generateSearchKeys (JArr ts) =
     Inr ([\<lparr>name = ''title'', weight = Weight 2\<rparr>,
           \<lparr>name = ''description'', weight = Weight (3/2)\<rparr>,
           \<lparr>name = ''details'', weight = Weight 1\<rparr>,
           \<lparr>name = ''dependencyTitles'', weight = Weight (1/2)\<rparr>] @
          map (\<lambda>f. \<lparr>name = ''customFields.'' @ f, weight = getWeightForField f\<rparr>)
            (add_all [] (concat (map task_keys ts))))"
  by (simp add: generateSearchKeys_def getCustomFieldNames_value getWeightForField_def
      FIELD_WEIGHTS_def)

text \<open>
  Claim C9, as amended. On a task set without custom fields \<open>generateSearchKeys\<close> returns
  exactly four keys, \<open>title\<close> (2.0), \<open>description\<close> (1.5), \<open>details\<close> (1.0) and
  \<open>dependencyTitles\<close> (0.5). After one task of that set is given a \<open>customFields\<close> object
  with \<open>n\<close> distinct names it returns these four keys first and then one key
  \<open>customFields.<name>\<close> per name, with the weight of that name: \<open>4 + n\<close> keys, 54 for
  fifty fields.
\<close>

theorem search_keys_core_then_custom:
  assumes "getCustomFieldNames (JArr ts) = Inr []"
  shows "generateSearchKeys (JArr ts) =
           Inr [\<lparr>name = ''title'', weight = Weight 2\<rparr>,
                \<lparr>name = ''description'', weight = Weight (3/2)\<rparr>,
                \<lparr>name = ''details'', weight = Weight 1\<rparr>,
                \<lparr>name = ''dependencyTitles'', weight = Weight (1/2)\<rparr>] \<and>
         (\<forall>i kvs fields.
            i < length ts \<and> ts ! i = JObj kvs \<and> distinct (map fst fields) \<longrightarrow>
            generateSearchKeys
              (JArr (ts[i := JObj (obj_set kvs ''customFields'' (JObj fields))])) =
              Inr ([\<lparr>name = ''title'', weight = Weight 2\<rparr>,
                    \<lparr>name = ''description'', weight = Weight (3/2)\<rparr>,
                    \<lparr>name = ''details'', weight = Weight 1\<rparr>,
                    \<lparr>name = ''dependencyTitles'', weight = Weight (1/2)\<rparr>] @
                   map (\<lambda>f. \<lparr>name = ''customFields.'' @ f, weight = getWeightForField f\<rparr>)
                     (map fst fields)))"
proof -
  from assms have ok: "list_all scan_ok ts"
    and "add_all [] (concat (map task_keys ts)) = []"
    by (simp_all add: getCustomFieldNames_value split: if_splits)
  then have none: "concat (map task_keys ts) = []" by (simp add: add_all_eq_Nil)
  then have no_keys: "\<And>t. t \<in> set ts \<Longrightarrow> task_keys t = []" by simp
  have first: "generateSearchKeys (JArr ts) =
           Inr [\<lparr>name = ''title'', weight = Weight 2\<rparr>,
                \<lparr>name = ''description'', weight = Weight (3/2)\<rparr>,
                \<lparr>name = ''details'', weight = Weight 1\<rparr>,
                \<lparr>name = ''dependencyTitles'', weight = Weight (1/2)\<rparr>]"
    by (simp add: generateSearchKeys_value [OF ok] none)
  have second: "generateSearchKeys
              (JArr (ts[i := JObj (obj_set kvs ''customFields'' (JObj fields))])) =
              Inr ([\<lparr>name = ''title'', weight = Weight 2\<rparr>,
                    \<lparr>name = ''description'', weight = Weight (3/2)\<rparr>,
                    \<lparr>name = ''details'', weight = Weight 1\<rparr>,
                    \<lparr>name = ''dependencyTitles'', weight = Weight (1/2)\<rparr>] @
                   map (\<lambda>f. \<lparr>name = ''customFields.'' @ f, weight = getWeightForField f\<rparr>)
                     (map fst fields))"
    if i: "i < length ts" and t: "ts ! i = JObj kvs" and d: "distinct (map fst fields)"
    for i kvs fields
  proof -
    let ?t' = "JObj (obj_set kvs ''customFields'' (JObj fields))"
    from i have mem: "ts ! i \<in> set ts" by simp
    with ok have okt: "scan_ok (JObj kvs)" by (simp add: list_all_iff t)
    from no_keys [OF mem] have "concat (map keys_of (subtask_entries (JObj kvs))) = []"
      by (simp add: task_keys_def t)
    then have keys': "task_keys ?t' = map fst fields"
      by (simp add: task_keys_def keys_of_def)
    from okt have "scan_ok ?t'" by (simp add: scan_ok_def nullish_def)
    with ok have ok': "list_all scan_ok (ts[i := ?t'])" by (rule list_all_update)
    have "concat (map task_keys (ts[i := ?t'])) = task_keys ?t'"
      using no_keys i by (rule concat_map_update)
    with keys' d have "add_all [] (concat (map task_keys (ts[i := ?t']))) = map fst fields"
      by (simp add: add_all_distinct)
    then show ?thesis by (simp add: generateSearchKeys_value [OF ok'])
  qed
  from first second show ?thesis by blast
qed

text \<open>The claim as stated (exactly 3 keys without custom fields) fails on the single
  task \<open>{id: 1, title: "Task 1"}\<close>: four keys come back, \<open>dependencyTitles\<close> the fourth.\<close>

theorem search_keys_counterexample:
  "generateSearchKeys (JArr [task_plain]) =
     Inr [\<lparr>name = ''title'', weight = Weight 2\<rparr>,
          \<lparr>name = ''description'', weight = Weight (3/2)\<rparr>,
          \<lparr>name = ''details'', weight = Weight 1\<rparr>,
          \<lparr>name = ''dependencyTitles'', weight = Weight (1/2)\<rparr>]"
  by code_simp

lemma distinct_fifty_fields: "distinct (map fst fifty_fields)"
  by code_simp

lemma length_fifty_fields: "length fifty_fields = 50"
  by (simp add: fifty_fields_def)

theorem search_keys_core_then_custom_witness:
  "getCustomFieldNames (JArr [task_plain]) = Inr [] \<and>
   (\<exists>keys. generateSearchKeys
      (JArr [JObj (obj_set (own_props task_plain) ''customFields'' (JObj fifty_fields))]) =
      Inr keys \<and> length keys = 54 \<and> map name (take 4 keys) = [''title'', ''description'', ''details'', ''dependencyTitles''])"
proof -
  have h: "getCustomFieldNames (JArr [task_plain]) = Inr []"
    by (simp add: getCustomFieldNames_value scan_ok_def task_keys_def keys_of_def
        subtask_entries_def prop_of_def nullish_def task_plain_def)
  have i: "0 < length [task_plain] \<and> [task_plain] ! 0 = JObj (own_props task_plain) \<and>
      distinct (map fst fifty_fields)"
    by (simp add: distinct_fifty_fields task_plain_def)
  from search_keys_core_then_custom [OF h] i
  have "generateSearchKeys
      (JArr ([task_plain][0 := JObj (obj_set (own_props task_plain) ''customFields'' (JObj fifty_fields))])) =
              Inr ([\<lparr>name = ''title'', weight = Weight 2\<rparr>,
                    \<lparr>name = ''description'', weight = Weight (3/2)\<rparr>,
                    \<lparr>name = ''details'', weight = Weight 1\<rparr>,
                    \<lparr>name = ''dependencyTitles'', weight = Weight (1/2)\<rparr>] @
                   map (\<lambda>f. \<lparr>name = ''customFields.'' @ f, weight = getWeightForField f\<rparr>)
                     (map fst fifty_fields))"
    by blast
  then show ?thesis using h by (simp add: length_fifty_fields)
qed

subsection \<open>The integrity report\<close>

lemma fold_result_total:
  "(\<And>x s. x \<in> set xs \<Longrightarrow> \<exists>s'. f x s = Inr s') \<Longrightarrow> \<exists>s'. fold_result f xs s = Inr s'"
proof (induction xs arbitrary: s)
  case Nil
  show ?case by simp
next
  case (Cons x xs)
  from Cons.prems obtain s1 where s1: "f x s = Inr s1" by (meson list.set_intros(1))
  from Cons.prems have "\<exists>s'. fold_result f xs s1 = Inr s'"
    by (intro Cons.IH) simp
  with s1 show ?case by simp
qed

lemma array_elems_subtasks:
  "truthy (prop_of t ''subtasks'') \<Longrightarrow> is_array (prop_of t ''subtasks'') \<Longrightarrow>
   array_elems (prop_of t ''subtasks'') = subtask_entries t"
  by (cases "prop_of t ''subtasks''") (simp_all add: subtask_entries_def)

lemma check_subtask_total:
  "\<not> nullish (snd entry) \<Longrightarrow> \<exists>st'. check_subtask task entry st = Inr st'"
  by (simp add: check_subtask_def Let_def get_prop_not_nullish)

lemma check_task_total:
  assumes "entries_defined t"
  shows "\<exists>iss'. check_task t iss = Inr iss'"
proof -
  from assms have nn: "\<not> nullish t"
    and ents: "list_all (\<lambda>s. \<not> nullish s) (subtask_entries t)"
    by (simp_all add: entries_defined_def)
  let ?st = "prop_of t ''subtasks''"
  have st: "get_prop t ''subtasks'' = Inr ?st" using nn by (rule get_prop_not_nullish)
  show ?thesis
  proof (cases "\<not> truthy ?st \<or> \<not> is_array ?st")
    case True
    then show ?thesis unfolding check_task_def st rbind_Inr by auto
  next
    case False
    then have el: "array_elems ?st = subtask_entries t" by (simp add: array_elems_subtasks)
    have "\<exists>s'. fold_result (check_subtask t) (enumerate 0 (subtask_entries t)) (iss, []) = Inr s'"
    proof (rule fold_result_total)
      fix x s assume "x \<in> set (enumerate 0 (subtask_entries t))"
      then have "snd x \<in> set (subtask_entries t)"
        by (metis in_set_enumerate_eq diff_zero nth_mem add_0_right)
      with ents have "\<not> nullish (snd x)" by (simp add: list_all_iff)
      then show "\<exists>s'. check_subtask t x s = Inr s'" by (rule check_subtask_total)
    qed
    then obtain s' where "fold_result (check_subtask t) (enumerate 0 (subtask_entries t)) (iss, []) = Inr s'"
      by blast
    then show ?thesis unfolding check_task_def st rbind_Inr using False by (simp add: el)
  qed
qed

lemma validateSubtaskStructure_total:
  assumes "list_all entries_defined ts"
  shows "\<exists>v. validateSubtaskStructure (JArr ts) False = Inr v"
proof -
  have "\<exists>iss. fold_result check_task ts [] = Inr iss"
    using assms by (intro fold_result_total check_task_total) (simp add: list_all_iff)
  then obtain iss where "fold_result check_task ts [] = Inr iss" by blast
  then show ?thesis by (simp add: validateSubtaskStructure_def js_forEach_def)
qed

lemma orphan_entry_total:
  "\<not> nullish s \<Longrightarrow> \<exists>acc'. orphan_entry ids t s acc = Inr acc'"
  by (simp add: orphan_entry_def Let_def get_prop_not_nullish)

lemma orphans_of_task_total:
  assumes "entries_defined t"
  shows "\<exists>acc'. orphans_of_task ids t acc = Inr acc'"
proof -
  from assms have nn: "\<not> nullish t"
    and ents: "list_all (\<lambda>s. \<not> nullish s) (subtask_entries t)"
    by (simp_all add: entries_defined_def)
  let ?st = "prop_of t ''subtasks''"
  have st: "get_prop t ''subtasks'' = Inr ?st" using nn by (rule get_prop_not_nullish)
  show ?thesis
  proof (cases "\<not> truthy ?st \<or> \<not> is_array ?st")
    case True
    then show ?thesis unfolding orphans_of_task_def st rbind_Inr by auto
  next
    case False
    then have el: "array_elems ?st = subtask_entries t" by (simp add: array_elems_subtasks)
    have "\<exists>s'. fold_result (orphan_entry ids t) (subtask_entries t) acc = Inr s'"
      using ents by (intro fold_result_total orphan_entry_total) (simp add: list_all_iff)
    then show ?thesis unfolding orphans_of_task_def st rbind_Inr using False by (simp add: el)
  qed
qed

lemma findOrphanedSubtasks_total:
  assumes "list_all entries_defined ts"
  shows "\<exists>os. findOrphanedSubtasks (JArr ts) = Inr os"
proof -
  have "\<exists>ids. map_result (\<lambda>task. get_prop task ''id'') ts = Inr ids"
  proof (rule map_result_total)
    fix t assume "t \<in> set ts"
    with assms have "\<not> nullish t" by (simp add: list_all_iff entries_defined_def)
    then show "\<exists>y. get_prop t ''id'' = Inr y" by (simp add: get_prop_not_nullish)
  qed
  then obtain ids where ids: "map_result (\<lambda>task. get_prop task ''id'') ts = Inr ids" by blast
  have "\<exists>os. fold_result (orphans_of_task ids) ts [] = Inr os"
    using assms by (intro fold_result_total orphans_of_task_total) (simp add: list_all_iff)
  with ids show ?thesis by (simp add: findOrphanedSubtasks_def)
qed

lemma count_subtasks_value:
  "list_all (\<lambda>s. \<not> nullish s) ss \<Longrightarrow>
   fold_result (count_subtask t) ss n = Inr (n + length (filter (\<lambda>s. \<not> parent_ok t s) ss))"
  by (induction ss arbitrary: n)
     (auto simp: count_subtask_def get_prop_not_nullish parent_ok_def)

lemma count_task_value:
  assumes "entries_defined t"
  shows "count_task t c =
     Inr \<lparr>c_tasksWithSubtasks = c_tasksWithSubtasks c + (if subtask_entries t = [] then 0 else 1),
          c_totalSubtasks = c_totalSubtasks c + length (subtask_entries t),
          c_subtasksWithIssues = c_subtasksWithIssues c +
             length (filter (\<lambda>s. \<not> parent_ok t s) (subtask_entries t))\<rparr>"
proof -
  from assms have nn: "\<not> nullish t"
    and ents: "list_all (\<lambda>s. \<not> nullish s) (subtask_entries t)"
    by (simp_all add: entries_defined_def)
  let ?st = "prop_of t ''subtasks''"
  have st: "get_prop t ''subtasks'' = Inr ?st" using nn by (rule get_prop_not_nullish)
  show ?thesis
  proof (cases "truthy ?st \<and> is_array ?st \<and> 0 < length (array_elems ?st)")
    case True
    then have el: "array_elems ?st = subtask_entries t" by (simp add: array_elems_subtasks)
    with True have ne: "subtask_entries t \<noteq> []" by auto
    show ?thesis
      unfolding count_task_def st rbind_Inr using True ne
      by (simp add: el count_subtasks_value [OF ents])
  next
    case False
    then have "subtask_entries t = []"
      by (cases ?st) (auto simp: subtask_entries_def)
    with False show ?thesis
      unfolding count_task_def st rbind_Inr by simp
  qed
qed

lemma count_tasks_value:
  "list_all entries_defined ts \<Longrightarrow>
   \<exists>k. fold_result count_task ts c =
     Inr \<lparr>c_tasksWithSubtasks = k,
          c_totalSubtasks = c_totalSubtasks c + n_subtasks ts,
          c_subtasksWithIssues = c_subtasksWithIssues c + n_issues ts\<rparr>"
proof (induction ts arbitrary: c)
  case Nil
  show ?case
    by (rule exI [of _ "c_tasksWithSubtasks c"]) (simp add: n_subtasks_def n_issues_def)
next
  case (Cons t ts)
  then have t: "entries_defined t" and ts: "list_all entries_defined ts" by simp_all
  let ?c1 = "\<lparr>c_tasksWithSubtasks =
                c_tasksWithSubtasks c + (if subtask_entries t = [] then 0 else 1),
              c_totalSubtasks = c_totalSubtasks c + length (subtask_entries t),
              c_subtasksWithIssues = c_subtasksWithIssues c +
                length (filter (\<lambda>s. \<not> parent_ok t s) (subtask_entries t))\<rparr>"
  from Cons.IH [OF ts, of ?c1] obtain k where
    "fold_result count_task ts ?c1 =
       Inr \<lparr>c_tasksWithSubtasks = k,
            c_totalSubtasks = c_totalSubtasks ?c1 + n_subtasks ts,
            c_subtasksWithIssues = c_subtasksWithIssues ?c1 + n_issues ts\<rparr>"
    by blast
  then have "fold_result count_task (t # ts) c =
       Inr \<lparr>c_tasksWithSubtasks = k,
            c_totalSubtasks = c_totalSubtasks c + n_subtasks (t # ts),
            c_subtasksWithIssues = c_subtasksWithIssues c + n_issues (t # ts)\<rparr>"
    by (simp add: count_task_value [OF t] n_subtasks_def n_issues_def add.assoc)
  then show ?case by blast
qed

lemma to_double_1: "to_double 1 = 1"
  by code_simp

lemma to_double_100: "to_double 100 = 100"
  by code_simp

lemma toFixed1_100: "toFixed1 100 = ''100.0''"
  by code_simp

lemma integrity_score_none: "integrity_score 0 k = ''100%''"
  by (simp add: integrity_score_def)

lemma integrity_score_healthy: "0 < n \<Longrightarrow> integrity_score n 0 = ''100.0%''"
  by (simp add: integrity_score_def js_div_def js_mul_def to_double_1 to_double_100 toFixed1_100)

lemma integrity_score_4_2: "integrity_score 4 2 = ''50.0%''"
  by code_simp

text \<open>
  Claim C8 (integrity score). On every array of tasks on which the report is computed
  (no task and no subtask entry is \<open>null\<close> or \<open>undefined\<close>),
  \<open>createSubtaskIntegrityReport\<close> returns a report whose \<open>totalSubtasks\<close> is the number of
  subtask entries and whose \<open>subtasksWithIssues\<close> is the number of entries with a missing
  or incorrect \<open>parentTaskId\<close>. Its \<open>integrityScore\<close> is the string \<open>100%\<close> when there
  are no subtasks, \<open>100.0%\<close> when there are subtasks and none has an issue, \<open>50.0%\<close> for
  four subtasks of which two have an issue, and whenever there are subtasks it is
  \<open>(totalSubtasks - subtasksWithIssues) / totalSubtasks * 100\<close>, computed in doubles,
  printed by \<open>toFixed(1)\<close> and followed by \<open>%\<close>.
\<close>

theorem integrity_score_cases:
  assumes "list_all entries_defined ts"
  shows "\<exists>r. createSubtaskIntegrityReport (JArr ts) = Inr r \<and>
     totalSubtasks (summary r) = n_subtasks ts \<and>
     subtasksWithIssues (summary r) = n_issues ts \<and>
     (n_subtasks ts = 0 \<longrightarrow> integrityScore (summary r) = ''100%'') \<and>
     (0 < n_subtasks ts \<and> n_issues ts = 0 \<longrightarrow> integrityScore (summary r) = ''100.0%'') \<and>
     (n_subtasks ts = 4 \<and> n_issues ts = 2 \<longrightarrow> integrityScore (summary r) = ''50.0%'') \<and>
     (0 < n_subtasks ts \<longrightarrow> integrityScore (summary r) =
        toFixed1 (js_mul (js_div (of_int (int (n_subtasks ts) - int (n_issues ts)))
                                 (of_nat (n_subtasks ts))) 100) @ ''%'')"
proof -
  from validateSubtaskStructure_total [OF assms] obtain v
    where v: "validateSubtaskStructure (JArr ts) False = Inr v" by blast
  from findOrphanedSubtasks_total [OF assms] obtain os
    where os: "findOrphanedSubtasks (JArr ts) = Inr os" by blast
  from count_tasks_value [OF assms,
      of "\<lparr>c_tasksWithSubtasks = 0, c_totalSubtasks = 0, c_subtasksWithIssues = 0\<rparr>"]
  obtain k where c: "fold_result count_task ts
        \<lparr>c_tasksWithSubtasks = 0, c_totalSubtasks = 0, c_subtasksWithIssues = 0\<rparr> =
      Inr \<lparr>c_tasksWithSubtasks = k, c_totalSubtasks = n_subtasks ts,
           c_subtasksWithIssues = n_issues ts\<rparr>"
    by auto
  let ?r = "\<lparr>summary = \<lparr>totalTasks = length ts, tasksWithSubtasks = k,
                totalSubtasks = n_subtasks ts, subtasksWithIssues = n_issues ts,
                orphanedCount = length os,
                integrityScore = integrity_score (n_subtasks ts) (n_issues ts)\<rparr>,
             issues = validationIssues v, orphanedSubtasks = os,
             isHealthy = (isValid v \<and> length os = 0)\<rparr>"
  have r: "createSubtaskIntegrityReport (JArr ts) = Inr ?r"
    by (simp add: createSubtaskIntegrityReport_def v os js_forEach_def c)
  have s0: "n_subtasks ts = 0 \<longrightarrow> integrityScore (summary ?r) = ''100%''"
    by (simp add: integrity_score_none)
  have s1: "0 < n_subtasks ts \<and> n_issues ts = 0 \<longrightarrow> integrityScore (summary ?r) = ''100.0%''"
    by (simp add: integrity_score_healthy)
  have s2: "n_subtasks ts = 4 \<and> n_issues ts = 2 \<longrightarrow> integrityScore (summary ?r) = ''50.0%''"
    by (simp add: integrity_score_4_2)
  have s3: "0 < n_subtasks ts \<longrightarrow> integrityScore (summary ?r) =
        toFixed1 (js_mul (js_div (of_int (int (n_subtasks ts) - int (n_issues ts)))
                                 (of_nat (n_subtasks ts))) 100) @ ''%''"
    by (simp add: integrity_score_def)
  show ?thesis
    by (rule exI [of _ ?r]) (use r s0 s1 s2 s3 in simp)
qed

theorem integrity_score_cases_witness:
  "list_all entries_defined report_tasks \<and> n_subtasks report_tasks = 4 \<and>
   n_issues report_tasks = 2 \<and>
   (\<exists>r. createSubtaskIntegrityReport (JArr report_tasks) = Inr r \<and>
        integrityScore (summary r) = ''50.0%'')"
proof -
  have h: "list_all entries_defined report_tasks"
    by (simp add: report_tasks_def entries_defined_def nullish_def subtask_entries_def
        prop_of_def)
  have n: "n_subtasks report_tasks = 4"
    by (simp add: report_tasks_def n_subtasks_def subtask_entries_def prop_of_def)
  have i: "n_issues report_tasks = 2"
    by (simp add: report_tasks_def n_issues_def subtask_entries_def prop_of_def parent_ok_def)
  from integrity_score_cases [OF h] n i have
    "\<exists>r. createSubtaskIntegrityReport (JArr report_tasks) = Inr r \<and>
        integrityScore (summary r) = ''50.0%''"
    by auto
  with h n i show ?thesis by blast
qed

subsection \<open>The model of doubles\<close>

text \<open>Two checks of the rounding used in the score: \<open>binade x\<close> is the exponent of the
  power of two at or below \<open>x\<close>, and \<open>to_double x\<close> is within half a unit in the last
  place of \<open>x\<close>.\<close>

lemma bit_length_pos: "0 < n \<Longrightarrow> 1 \<le> bit_length n"
proof (induction n rule: bit_length.induct)
  case (1 n)
  show ?case
  proof (cases "n div 2 \<le> 0")
    case True
    with "1.prems" show ?thesis
      by (subst bit_length.simps, subst bit_length.simps) simp
  next
    case False
    with "1.IH" "1.prems" have "1 \<le> bit_length (n div 2)" by simp
    with "1.prems" show ?thesis by (subst bit_length.simps) simp
  qed
qed

lemma bit_length_bounds:
  "0 < n \<Longrightarrow> 2 ^ nat (bit_length n - 1) \<le> n \<and> n < 2 ^ nat (bit_length n)"
proof (induction n rule: bit_length.induct)
  case (1 n)
  show ?case
  proof (cases "n div 2 \<le> 0")
    case True
    with "1.prems" have n: "n = 1" by presburger
    show ?thesis unfolding n
      by (subst bit_length.simps, subst bit_length.simps, subst bit_length.simps,
          subst bit_length.simps) simp
  next
    case False
    then have h: "0 < n div 2" by simp
    with "1.IH" "1.prems" have
      IH: "2 ^ nat (bit_length (n div 2) - 1) \<le> n div 2 \<and> n div 2 < 2 ^ nat (bit_length (n div 2))"
      by simp
    from bit_length_pos [OF h] have p: "1 \<le> bit_length (n div 2)" .
    have bl: "bit_length n = bit_length (n div 2) + 1"
      using "1.prems" by (subst bit_length.simps) simp
    have e1: "nat (bit_length n - 1) = Suc (nat (bit_length (n div 2) - 1))"
      using p bl by simp
    have e2: "nat (bit_length n) = Suc (nat (bit_length (n div 2)))"
      using p bl by simp
    from IH show ?thesis unfolding e1 e2 by (simp; presburger)
  qed
qed

lemma pow2_powi: "pow2 e = 2 powi e"
  by (simp add: pow2_def power_int_def field_simps)

lemma pow2_diff: "pow2 (int m - int n) = 2 ^ m / 2 ^ n"
  by (simp add: pow2_powi power_int_diff)

lemma binade_bounds:
  assumes "0 < x"
  shows "pow2 (binade x) \<le> x \<and> x < pow2 (binade x + 1)"
proof -
  obtain p q where pq: "quotient_of x = (p, q)" by (cases "quotient_of x")
  then have q: "0 < q" by (rule quotient_of_denom_pos)
  from pq have x: "x = of_int p / of_int q" by (rule quotient_of_div)
  with assms q have p: "0 < p" by (simp add: zero_less_divide_iff)
  define A where "A = nat (bit_length p)"
  define B where "B = nat (bit_length q)"
  from bit_length_pos [OF p] have a: "bit_length p = int A" "1 \<le> A" by (simp_all add: A_def)
  from bit_length_pos [OF q] have b: "bit_length q = int B" "1 \<le> B" by (simp_all add: B_def)
  from bit_length_bounds [OF p] a have pb: "2 ^ (A - 1) \<le> p" "p < 2 ^ A"
    by (simp_all add: nat_diff_distrib)
  from bit_length_bounds [OF q] b have qb: "2 ^ (B - 1) \<le> q" "q < 2 ^ B"
    by (simp_all add: nat_diff_distrib)
  have P1: "(2::rat) ^ (A - 1) \<le> of_int p" and P2: "(of_int p :: rat) < 2 ^ A"
    using pb by (metis of_int_le_iff of_int_numeral of_int_power, metis of_int_less_iff of_int_numeral of_int_power)
  have Q1: "(2::rat) ^ (B - 1) \<le> of_int q" and Q2: "(of_int q :: rat) < 2 ^ B"
    using qb by (metis of_int_le_iff of_int_numeral of_int_power, metis of_int_less_iff of_int_numeral of_int_power)
  have upper: "x < pow2 (int A - int B + 1)"
  proof -
    have "x < 2 ^ A / 2 ^ (B - 1)"
      unfolding x using p P2 Q1 by (intro frac_less) simp_all
    also have "\<dots> = pow2 (int A - int (B - 1))" by (simp add: pow2_diff)
    also have "int A - int (B - 1) = int A - int B + 1" using b(2) by simp
    finally show ?thesis .
  qed
  have lower: "pow2 (int A - int B - 1) \<le> x"
  proof -
    have "(2::rat) ^ (A - 1) / 2 ^ B \<le> x"
      unfolding x using p q P1 Q2 by (intro frac_le) simp_all
    moreover have "(2::rat) ^ (A - 1) / 2 ^ B = pow2 (int (A - 1) - int B)"
      by (simp add: pow2_diff)
    moreover have "int (A - 1) - int B = int A - int B - 1" using a(2) by simp
    ultimately show ?thesis by (simp add: algebra_simps)
  qed
  have bin: "binade x = (if pow2 (int A - int B) \<le> x then int A - int B else int A - int B - 1)"
    by (simp add: binade_def pq a b)
  show ?thesis
  proof (cases "pow2 (int A - int B) \<le> x")
    case True
    with bin upper show ?thesis by simp
  next
    case False
    with bin lower show ?thesis by simp
  qed
qed

lemma round_half_even_error: "\<bar>of_int (round_half_even y) - y\<bar> \<le> 1/2"
proof -
  have "of_int \<lfloor>y\<rfloor> \<le> y" "y < of_int \<lfloor>y\<rfloor> + 1" by linarith+
  then show ?thesis
    by (auto simp: round_half_even_def Let_def abs_le_iff)
qed

lemma pow2_pos: "0 < pow2 e"
  by (simp add: pow2_powi)

lemma pow2_half: "pow2 (e - 53) = pow2 (e - 52) / 2"
proof -
  have "(2::rat) powi (e - 52 - 1) = 2 powi (e - 52) / 2 powi 1"
    by (rule power_int_diff) simp
  moreover have "e - 52 - 1 = e - 53" by simp
  ultimately show ?thesis by (simp add: pow2_powi)
qed

lemma to_double_error:
  assumes "0 < x"
  shows "\<bar>to_double x - x\<bar> \<le> pow2 (binade x - 53)"
proof -
  let ?u = "pow2 (binade x - 52)"
  have u: "0 < ?u" by (rule pow2_pos)
  have td: "to_double x = of_int (round_half_even (x / ?u)) * ?u"
    using assms by (simp add: to_double_def Let_def)
  have "to_double x - x = (of_int (round_half_even (x / ?u)) - x / ?u) * ?u"
    using u by (simp add: td field_simps)
  then have "\<bar>to_double x - x\<bar> = \<bar>of_int (round_half_even (x / ?u)) - x / ?u\<bar> * ?u"
    using u by (simp add: abs_mult)
  also have "\<dots> \<le> 1/2 * ?u"
    using round_half_even_error [of "x / ?u"] u by (intro mult_right_mono) simp_all
  finally show ?thesis by (simp add: pow2_half)
qed

end
